theory Spec2Isabelle
  imports Main "HOL-Library.Word" "HOL-Library.Signed_Division" "HOL-Library.Monad_Syntax"
begin

unbundle bit_operations_syntax

section \<open>Machine integers\<close>

type_synonym u8 = "8 word"
type_synonym u16 = "16 word"
type_synonym u32 = "32 word"
type_synonym u64 = "64 word"
type_synonym s64 = "64 word"

section \<open>Adler-32 (crypto/adler32.cpp)\<close>

text \<open>
  The checksum object holds two 16-bit halves. \<open>update\<close> copies them into two locals of
  type \<open>uint_fast32_t\<close>, works on the locals and stores them back truncated to 16 bits.

  \<open>uint_fast32_t\<close> has at least 32 bits and no fixed width, so a sum that does not fit
  32 bits has no value that holds on every platform. The locals are modelled as natural
  numbers and every addition is checked: \<open>None\<close> stands for a sum beyond the 32-bit range.
\<close>

record adler32 =
  s1 :: u16
  s2 :: u16

definition base :: nat where
  "base = 65521"

text \<open>Modelled from the spec: the initial state \<open>(1, 0)\<close> and \<open>finalize\<close>, which yields
  \<open>(s2 << 16) | s1\<close> (crypto/adler32.hpp is not part of the sources at hand).\<close>

definition adler32_init :: adler32 where
  "adler32_init = \<lparr>s1 = 1, s2 = 0\<rparr>"

definition finalize :: "adler32 \<Rightarrow> u32" where
  "finalize st = push_bit 16 (ucast (s2 st)) OR ucast (s1 st)"

definition add_fast32 :: "nat \<Rightarrow> nat \<Rightarrow> nat option" where
  "add_fast32 a b = (if a + b < 2 ^ 32 then Some (a + b) else None)"

text \<open>One \<open>s1 += byte; s2 += s1\<close>.\<close>

fun accumulate :: "(nat \<times> nat) option \<Rightarrow> u8 \<Rightarrow> (nat \<times> nat) option" where
  "accumulate None b = None"
| "accumulate (Some (a, c)) b =
     (case add_fast32 a (unat b) of
        None \<Rightarrow> None
      | Some a' \<Rightarrow> (case add_fast32 c a' of None \<Rightarrow> None | Some c' \<Rightarrow> Some (a', c')))"

text \<open>
  The \<open>do ... while(length % 8 != 0)\<close> loop. It is entered only with
  \<open>length % 8 != 0\<close>, hence with at least one byte; the equation for the empty input is
  never reached from \<open>update\<close>.
\<close>

fun catch_up :: "nat \<Rightarrow> nat \<Rightarrow> u8 list \<Rightarrow> (nat \<times> nat \<times> u8 list) option" where
  "catch_up a c [] = Some (a, c, [])"
| "catch_up a c (x # xs) =
     (case accumulate (Some (a, c)) x of
        None \<Rightarrow> None
      | Some (a', c') \<Rightarrow>
          if length xs mod 8 \<noteq> 0 then catch_up a' c' xs else Some (a', c', xs))"

text \<open>
  The \<open>while(length > 0)\<close> loop: eight unrolled accumulations on \<open>input[0..7]\<close>, then
  \<open>length -= 8; input += 8\<close>, the conditional subtraction on \<open>s1\<close> and the reduction of
  \<open>s2\<close> whenever the remaining length is a multiple of \<open>0x8000\<close>. The loop is entered
  with a multiple of eight bytes, so \<open>take 8\<close> always yields the eight bytes read.
\<close>

function main_loop :: "nat \<Rightarrow> nat \<Rightarrow> u8 list \<Rightarrow> (nat \<times> nat) option" where
  "main_loop a c xs =
     (if length xs > 0 then
        (case foldl accumulate (Some (a, c)) (take 8 xs) of
           None \<Rightarrow> None
         | Some (a', c') \<Rightarrow>
             let rest = drop 8 xs;
                 a'' = (if a' \<ge> base then a' - base else a');
                 c'' = (if length rest mod 0x8000 = 0 then c' mod base else c')
             in main_loop a'' c'' rest)
      else Some (a, c))"
  by pat_completeness auto
termination
  by (relation "measure (\<lambda>(a, c, xs). length xs)") auto

declare main_loop.simps [simp del]

definition update :: "adler32 \<Rightarrow> u8 list \<Rightarrow> adler32 option" where
  "update st input =
     (let a = unat (s1 st); c = unat (s2 st) in
      case (if length input mod 8 \<noteq> 0 then
              (case catch_up a c input of
                 None \<Rightarrow> None
               | Some (a', c', rest) \<Rightarrow>
                   Some (if a' \<ge> base then a' - base else a', c' mod base, rest))
            else Some (a, c, input)) of
        None \<Rightarrow> None
      | Some (a', c', rest) \<Rightarrow>
          (case main_loop a' c' rest of
             None \<Rightarrow> None
           | Some (a'', c'') \<Rightarrow> Some \<lparr>s1 = of_nat a'', s2 = of_nat c''\<rparr>))"

text \<open>Feeding a sequence of chunks through \<open>update\<close>, one call per chunk.\<close>

fun update_chunks :: "adler32 \<Rightarrow> u8 list list \<Rightarrow> adler32 option" where
  "update_chunks st [] = Some st"
| "update_chunks st (c # cs) =
     (case update st c of None \<Rightarrow> None | Some st' \<Rightarrow> update_chunks st' cs)"

text \<open>
  The checksum as the specification defines it: for each byte \<open>b\<close>,
  \<open>s1 \<leftarrow> s1 + b; s2 \<leftarrow> s2 + s1\<close>, both reduced modulo 65521.
\<close>

fun adler_step :: "nat \<times> nat \<Rightarrow> u8 \<Rightarrow> nat \<times> nat" where
  "adler_step (a, c) x = ((a + unat x) mod base, (c + (a + unat x)) mod base)"

definition adler_spec :: "nat \<times> nat \<Rightarrow> u8 list \<Rightarrow> nat \<times> nat" where
  "adler_spec st xs = foldl adler_step st xs"

section \<open>The byte reader\<close>

text \<open>
  The sources read from a \<open>std::istream\<close>. The model keeps what the code observes of it:
  the bytes of the underlying file, the get position and the fail bit. A stream that has
  failed ignores every later seek and read (the failure is sticky); \<open>tellg\<close> then yields
  \<open>-1\<close>. Seeking past the end of a file succeeds, and the next read fails.
\<close>

record istream =
  bytes :: "u8 list"
  gpos :: nat
  failbit :: bool

definition seekg :: "nat \<Rightarrow> istream \<Rightarrow> istream" where
  "seekg p strm = (if failbit strm then strm else strm\<lparr>gpos := p\<rparr>)"

definition seekg_cur :: "nat \<Rightarrow> istream \<Rightarrow> istream" where
  "seekg_cur d strm = (if failbit strm then strm else strm\<lparr>gpos := gpos strm + d\<rparr>)"

definition tellg :: "istream \<Rightarrow> int" where
  "tellg strm = (if failbit strm then - 1 else int (gpos strm))"

text \<open>
  Modelled from the spec: \<open>util::load\<close> (util/load.hpp is not part of the sources at hand),
  the fixed-width little-endian reads of the byte reader. All reads fail atomically: on a
  short read the reader enters the sticky failure state, and failed reads return zero.
  Where \<open>load_header\<close> calls \<open>istream::read\<close> it looks at the buffer only after a
  complete read, for which \<open>read_bytes\<close> yields the bytes read.
\<close>

definition read_bytes :: "nat \<Rightarrow> istream \<Rightarrow> u8 list \<times> istream" where
  "read_bytes n strm =
     (if failbit strm \<or> length (bytes strm) < gpos strm + n
      then (replicate n 0, strm\<lparr>failbit := True\<rparr>)
      else (take n (drop (gpos strm) (bytes strm)), strm\<lparr>gpos := gpos strm + n\<rparr>))"

text \<open>
  \<open>is.read(buffer, n)\<close> of the standard library: a stream that has failed stores nothing;
  otherwise the bytes available, up to \<open>n\<close>, are stored at the start of the buffer, and
  on fewer than \<open>n\<close> the rest of the buffer keeps its content and the stream fails. The
  second argument is the content of the buffer before the call.
\<close>

definition istream_read :: "nat \<Rightarrow> u8 list \<Rightarrow> istream \<Rightarrow> u8 list \<times> istream" where
  "istream_read n buf strm =
     (if failbit strm then (take n buf, strm)
      else
        let got = take n (drop (gpos strm) (bytes strm)) in
        if length got = n then (got, strm\<lparr>gpos := gpos strm + n\<rparr>)
        else (got @ drop (length got) (take n buf),
              strm\<lparr>gpos := gpos strm + length got, failbit := True\<rparr>))"

definition le_nat :: "u8 list \<Rightarrow> nat" where
  "le_nat bs = foldr (\<lambda>b n. unat b + 256 * n) bs 0"

definition load_u8 :: "istream \<Rightarrow> u8 \<times> istream" where
  "load_u8 strm = (case read_bytes 1 strm of (bs, strm') \<Rightarrow> (of_nat (le_nat bs), strm'))"

definition load_u16 :: "istream \<Rightarrow> u16 \<times> istream" where
  "load_u16 strm = (case read_bytes 2 strm of (bs, strm') \<Rightarrow> (of_nat (le_nat bs), strm'))"

definition load_u32 :: "istream \<Rightarrow> u32 \<times> istream" where
  "load_u32 strm = (case read_bytes 4 strm of (bs, strm') \<Rightarrow> (of_nat (le_nat bs), strm'))"

definition load_u64 :: "istream \<Rightarrow> u64 \<times> istream" where
  "load_u64 strm = (case read_bytes 8 strm of (bs, strm') \<Rightarrow> (of_nat (le_nat bs), strm'))"

definition load_s64 :: "istream \<Rightarrow> s64 \<times> istream" where
  "load_s64 strm = (case read_bytes 8 strm of (bs, strm') \<Rightarrow> (of_nat (le_nat bs), strm'))"

text \<open>Modelled from the spec: the variable-width read \<open>util::load<uint32_t>(is, bits)\<close>;
  16 reads a \<open>u16\<close> zero-extended, 32 reads a \<open>u32\<close>.\<close>

definition load_varint :: "istream \<Rightarrow> nat \<Rightarrow> u32 \<times> istream" where
  "load_varint strm bits =
     (if bits = 16 then (case load_u16 strm of (v, strm') \<Rightarrow> (ucast v, strm'))
      else load_u32 strm)"

section \<open>Logging\<close>

text \<open>
  Modelled from the spec: \<open>log_warning\<close> (util/log.hpp is not part of the sources at
  hand), which logs a warning and lets decoding continue. \<open>log_warning << ...\<close> appends a
  message to the process-wide log; the log is passed through the functions of the model,
  and the two messages of the sources are kept with the values they print.
\<close>

datatype warning =
  UnexpectedSliceNumber u32 u32
| UnexpectedFiletime s64

type_synonym log = "warning list"

section \<open>The PE resource locator (loader/exereader.cpp)\<close>

record header =
  nsections :: u16
  section_table_offset :: u32
  resource_table_address :: u32

record coff_section =
  virtual_size :: u32
  virtual_address :: u32
  raw_address :: u32

type_synonym section_list = "coff_section list"

text \<open>Modelled from the spec: the resource location \<open>{offset: u64, size: u32}\<close> returned to
  the caller (loader/exereader.hpp is not part of the sources at hand).\<close>

record resource =
  offset :: u64
  size_res :: u32

definition PE_MAGIC :: "u8 list" where
  "PE_MAGIC = [0x50, 0x45, 0, 0]"

definition get_resource_table :: "u32 \<Rightarrow> u32 \<Rightarrow> bool \<times> u32" where
  "get_resource_table entry resource_offset =
     (let is_table = (entry AND push_bit 31 1 \<noteq> 0);
          entry' = (entry AND NOT (push_bit 31 1)) + resource_offset
      in (is_table, entry'))"

text \<open>The \<open>for(size_t i = 0; i < nbids; i++)\<close> loop of \<open>find_resource_entry\<close>; the first
  argument counts the iterations left.\<close>

fun scan_ids :: "nat \<Rightarrow> u32 \<Rightarrow> istream \<Rightarrow> u32 \<times> istream" where
  "scan_ids 0 needle strm = (0, strm)"
| "scan_ids (Suc n) needle strm =
     (case load_u32 strm of (id', is1) \<Rightarrow>
      case load_u32 is1 of (entry, is2) \<Rightarrow>
        if failbit is2 then (0, is2)
        else if id' = needle then (entry, is2)
        else scan_ids n needle is2)"

definition find_resource_entry :: "istream \<Rightarrow> u32 \<Rightarrow> u32 \<times> istream" where
  "find_resource_entry strm needle =
     (let is1 = seekg_cur (4 + 4 + 2 + 2) strm in
      if failbit is1 then (0, is1) else
      case load_u16 is1 of (nbnames, is2) \<Rightarrow>
      case load_u16 is2 of (nbids, is3) \<Rightarrow>
      let entry_size = 4 + 4;
          is4 = seekg_cur (unat nbnames * entry_size) is3 in
      if failbit is4 then (0, is4) else
      scan_ids (unat nbids) needle is4)"

text \<open>
  \<open>load_header\<close> returns \<open>false\<close> or fills \<open>coff\<close> and returns \<open>true\<close>; the caller reads
  \<open>coff\<close> only after \<open>true\<close>. The model returns \<open>None\<close> for \<open>false\<close> and the filled header
  otherwise.
\<close>

definition load_header :: "istream \<Rightarrow> header option \<times> istream" where
  "load_header strm =
     (case load_u16 (seekg 0x3c strm) of (peOffset, is1) \<Rightarrow>
      if failbit is1 then (None, is1) else
      case read_bytes 4 (seekg (unat peOffset) is1) of (magic, is2) \<Rightarrow>
      if failbit is2 then (None, is2) else
      if magic \<noteq> PE_MAGIC then (None, is2) else
      case load_u16 (seekg_cur 2 is2) of (nsect, is3) \<Rightarrow>
      case load_u16 (seekg_cur (4 + 4 + 4) is3) of (optional_header_size, is4) \<Rightarrow>
      let is5 = seekg_cur 2 is4;
          table_offset = (word_of_int (tellg is5) :: u32) + ucast optional_header_size in
      case load_u16 is5 of (optionalHeaderMagic, is6) \<Rightarrow>
      if failbit is6 then (None, is6) else
      let is7 = (if optionalHeaderMagic = 0x20b then seekg_cur 106 is6 else seekg_cur 90 is6) in
      case load_u32 is7 of (ndirectories, is8) \<Rightarrow>
      if failbit is8 \<or> ndirectories < 3 then (None, is8) else
      let directory_header_size = 4 + 4;
          is9 = seekg_cur (2 * directory_header_size) is8 in
      case load_u32 is9 of (resource_address, is10) \<Rightarrow>
      case load_u32 is10 of (resource_size, is11) \<Rightarrow>
      if failbit is11 \<or> resource_address = 0 \<or> resource_size = 0 then (None, is11) else
      (Some \<lparr>nsections = nsect, section_table_offset = table_offset,
              resource_table_address = resource_address\<rparr>, is11))"

text \<open>The loop over the \<open>coff.nsections\<close> entries of the section table.\<close>

fun load_sections :: "nat \<Rightarrow> istream \<Rightarrow> section_list \<times> istream" where
  "load_sections 0 strm = ([], strm)"
| "load_sections (Suc n) strm =
     (case load_u32 (seekg_cur 8 strm) of (vsize, is1) \<Rightarrow>
      case load_u32 is1 of (vaddr, is2) \<Rightarrow>
      case load_u32 (seekg_cur 4 is2) of (raddr, is3) \<Rightarrow>
      case load_sections n (seekg_cur (4 + 4 + 2 + 2 + 4) is3) of (table, is4) \<Rightarrow>
        (\<lparr>virtual_size = vsize, virtual_address = vaddr, raw_address = raddr\<rparr> # table, is4))"

definition load_section_list :: "istream \<Rightarrow> header \<Rightarrow> section_list option \<times> istream" where
  "load_section_list strm coff =
     (case load_sections (unat (nsections coff))
             (seekg (unat (section_table_offset coff)) strm) of
        (table, is1) \<Rightarrow> (if failbit is1 then None else Some table, is1))"

fun to_file_offset :: "section_list \<Rightarrow> u32 \<Rightarrow> u32" where
  "to_file_offset [] memory = 0"
| "to_file_offset (s # sections) memory =
     (if memory \<ge> virtual_address s \<and> memory < virtual_address s + virtual_size s
      then memory + raw_address s - virtual_address s
      else to_file_offset sections memory)"

text \<open>
  \<open>find_resource\<close>. Neither it nor any function it calls writes to the log, which is
  returned as it was received.
\<close>

definition find_resource ::
  "log \<Rightarrow> istream \<Rightarrow> u32 \<Rightarrow> u32 \<Rightarrow> u32 \<Rightarrow> resource \<times> istream \<times> log" where
  "find_resource lg strm name type language =
     (let result = \<lparr>offset = 0, size_res = 0\<rparr> in
      case load_header (seekg 0 strm) of
        (None, is1) \<Rightarrow> (result, is1, lg)
      | (Some coff, is1) \<Rightarrow>
      case load_section_list is1 coff of
        (None, is2) \<Rightarrow> (result, is2, lg)
      | (Some sections, is2) \<Rightarrow>
      let resource_offset = to_file_offset sections (resource_table_address coff) in
      if resource_offset = 0 then (result, is2, lg) else
      case find_resource_entry (seekg (unat resource_offset) is2) type of (type_entry, is3) \<Rightarrow>
      case get_resource_table type_entry resource_offset of (type_is_table, type_offset) \<Rightarrow>
      if \<not> type_is_table then (result, is3, lg) else
      case find_resource_entry (seekg (unat type_offset) is3) name of (name_entry, is4) \<Rightarrow>
      case get_resource_table name_entry resource_offset of (name_is_table, name_offset) \<Rightarrow>
      if \<not> name_is_table then (result, is4, lg) else
      case find_resource_entry (seekg (unat name_offset) is4) language of (leaf_entry, is5) \<Rightarrow>
      case get_resource_table leaf_entry resource_offset of (leaf_is_table, leaf_offset) \<Rightarrow>
      if leaf_entry = 0 \<or> leaf_is_table then (result, is5, lg) else
      case load_u32 (seekg (unat leaf_offset) is5) of (data_address, is6) \<Rightarrow>
      case load_u32 is6 of (data_size, is7) \<Rightarrow>
      if failbit is7 then (result, is7, lg) else
      let data_offset = to_file_offset sections data_address in
      if data_offset = 0 then (result, is7, lg) else
      (\<lparr>offset = ucast data_offset, size_res = data_size\<rparr>, is7, lg))"

section \<open>Time (util/time.cpp)\<close>

text \<open>
  \<open>struct tm\<close>, and \<open>parse_time\<close> in its \<open>timegm\<close> variant. \<open>timegm\<close> belongs to the C
  library; it is modelled as the proleptic Gregorian conversion that normalises a month
  or day out of range, which is how the library reads a \<open>tm\<close>.
\<close>

record tm =
  tm_sec :: int
  tm_min :: int
  tm_hour :: int
  tm_mday :: int
  tm_mon :: int
  tm_year :: int
  tm_isdst :: int

definition days_from_civil :: "int \<Rightarrow> int \<Rightarrow> int \<Rightarrow> int" where
  "days_from_civil y m d =
     (let y' = (if m \<le> 2 then y - 1 else y);
          era = y' div 400;
          yoe = y' - era * 400;
          doy = (153 * (if m > 2 then m - 3 else m + 9) + 2) div 5 + d - 1;
          doe = yoe * 365 + yoe div 4 - yoe div 100 + doy
      in era * 146097 + doe - 719468)"

definition timegm :: "tm \<Rightarrow> s64" where
  "timegm t =
     (let y = 1900 + tm_year t + tm_mon t div 12;
          m = tm_mon t mod 12 + 1;
          days = days_from_civil y m 1 + (tm_mday t - 1)
      in word_of_int (days * 86400 + tm_hour t * 3600 + tm_min t * 60 + tm_sec t))"

definition parse_time :: "tm \<Rightarrow> s64" where
  "parse_time t = timegm (t\<lparr>tm_isdst := 0\<rparr>)"

text \<open>
  The process environment, and \<open>set_timezone\<close> in its POSIX variant: \<open>setenv\<close> for a
  value, \<open>unsetenv\<close> for a null pointer. The value is passed as a C string, which ends at
  the first NUL character.
\<close>

type_synonym environment = "string \<rightharpoonup> string"

definition c_str :: "string \<Rightarrow> string" where
  "c_str str = takeWhile (\<lambda>c. c \<noteq> CHR 0x00) str"

definition set_timezone :: "string option \<Rightarrow> environment \<Rightarrow> environment" where
  "set_timezone val env = (case val of Some v \<Rightarrow> env(''TZ'' \<mapsto> v) | None \<Rightarrow> env(''TZ'' := None))"

text \<open>The \<open>for(size_t i = 0; i < timezone.length(); i++)\<close> loop of
  \<open>set_local_timezone\<close>, which rewrites the string in place.\<close>

function flip_signs :: "nat \<Rightarrow> string \<Rightarrow> string" where
  "flip_signs i timezone =
     (if i < length timezone then
        flip_signs (i + 1)
          (if timezone ! i = CHR ''+'' then timezone[i := CHR ''-'']
           else if timezone ! i = CHR ''-'' then timezone[i := CHR ''+'']
           else timezone)
      else timezone)"
  by pat_completeness auto
termination
  by (relation "measure (\<lambda>(i, timezone). length timezone - i)") auto

declare flip_signs.simps [simp del]

definition set_local_timezone :: "string \<Rightarrow> environment \<Rightarrow> environment" where
  "set_local_timezone timezone env = set_timezone (Some (c_str (flip_signs 0 timezone))) env"

section \<open>Setup data entries (setup/data.cpp)\<close>

text \<open>
  Modelled from the spec: the version descriptor (setup/version.hpp is not part of the
  sources at hand), a record \<open>{major: u8, minor: u8, patch: u16, bits, unicode}\<close> compared
  with the literal version points \<open>INNO_VERSION(M, m, p)\<close> lexicographically on
  \<open>(major, minor, patch)\<close>.
\<close>

record version =
  major :: u8
  minor :: u8
  patch :: u16
  bits :: nat
  unicode :: bool

type_synonym version_constant = "u8 \<times> u8 \<times> u16"

definition INNO_VERSION :: "u8 \<Rightarrow> u8 \<Rightarrow> u16 \<Rightarrow> version_constant" where
  "INNO_VERSION a b c = (a, b, c)"

fun version_less :: "version \<Rightarrow> version_constant \<Rightarrow> bool" where
  "version_less v (a, b, c) =
     (major v < a \<or> (major v = a \<and> (minor v < b \<or> (minor v = b \<and> patch v < c))))"

definition version_ge :: "version \<Rightarrow> version_constant \<Rightarrow> bool" where
  "version_ge v k = (\<not> version_less v k)"

text \<open>Modelled from the spec: the enumerations and the checksum union of the entry
  (setup/data.hpp, crypto/checksum.hpp and stream/chunk.hpp are not part of the sources at
  hand). The flags are listed in the order of the \<open>NAMES\<close> table of data.cpp.\<close>

datatype flags =
  VersionInfoValid
| VersionInfoNotValid
| TimeStampInUTC
| IsUninstallerExe
| CallInstructionOptimized
| Touch
| ChunkEncrypted
| ChunkCompressed
| SolidBreak
| BZipped

datatype checksum =
  Adler32 u32
| CRC32 u32
| MD5 "u8 list"
| SHA1 "u8 list"

datatype compression_method = Stored | BZip2 | UnknownCompression

datatype compression_filter =
  NoFilter | InstructionFilter4108 | InstructionFilter5200 | InstructionFilter5309

text \<open>Modelled from the spec: \<open>util::get_bits(x, first, last)\<close>, the bits
  \<open>first..last\<close> of \<open>x\<close>, both ends included (util/load.hpp).\<close>

definition get_bits :: "u16 \<Rightarrow> nat \<Rightarrow> nat \<Rightarrow> u16" where
  "get_bits x first_bit last_bit = take_bit (last_bit - first_bit + 1) (drop_bit first_bit x)"

text \<open>
  Modelled from the spec: \<open>stored_flag_reader\<close> (util/storedenum.hpp). \<open>add\<close> appends a
  flag to the catalog; the reader then consumes \<open>\<lceil>N/8\<rceil>\<close> bytes for \<open>N\<close> registered flags
  (a 16-bit-aligned count for 16-bit installers), and bit \<open>i\<close> of that little-endian value
  set means that flag \<open>i\<close> of the catalog is present.
\<close>

definition flag_bytes :: "nat \<Rightarrow> nat \<Rightarrow> nat" where
  "flag_bytes pad_bits n = (if pad_bits = 16 then 2 * ((n + 15) div 16) else (n + 7) div 8)"

definition stored_flag_reader :: "flags list \<Rightarrow> nat \<Rightarrow> istream \<Rightarrow> flags set \<times> istream" where
  "stored_flag_reader catalog pad_bits strm =
     (case read_bytes (flag_bytes pad_bits (length catalog)) strm of
        (bs, strm') \<Rightarrow>
          (set (map fst (filter (\<lambda>(f, i). bit (le_nat bs) i)
                           (zip catalog [0 ..< length catalog]))), strm'))"

text \<open>Modelled from the spec: the fields of the entry, as \<open>data_entry::load\<close> assigns
  them (\<open>chunk.first_slice\<close> is \<open>chunk_first_slice\<close>, and so on).\<close>

record data_entry =
  chunk_first_slice :: u32
  chunk_last_slice :: u32
  chunk_offset :: u32
  chunk_size :: u64
  chunk_compression :: compression_method
  chunk_encrypted :: bool
  file_offset :: u64
  file_size :: u64
  file_checksum :: checksum
  file_filter :: compression_filter
  timestamp :: s64
  timestamp_nsec :: u32
  file_version :: u64
  options :: "flags set"

text \<open>
  \<open>data_entry::load\<close> is one function of consecutive blocks; each block is a definition
  here, and \<open>data_entry_load\<close> runs them in the order of the source.

  Lines 34--43: the slice numbers.
\<close>

definition load_slices :: "istream \<Rightarrow> version \<Rightarrow> log \<Rightarrow> (u32 \<times> u32) \<times> istream \<times> log" where
  "load_slices strm v lg =
     (case load_varint strm (bits v) of (first_slice, is1) \<Rightarrow>
      case load_varint is1 (bits v) of (last_slice, is2) \<Rightarrow>
        if version_less v (INNO_VERSION 4 0 0) then
          if first_slice < 1 \<or> last_slice < 1
          then ((first_slice, last_slice), is2,
                lg @ [UnexpectedSliceNumber first_slice last_slice])
          else ((first_slice - 1, last_slice - 1), is2, lg)
        else ((first_slice, last_slice), is2, lg))"

text \<open>Lines 45--59: \<open>chunk.offset\<close>, \<open>file.offset\<close>, \<open>file.size\<close>, \<open>chunk.size\<close>.\<close>

definition load_sizes :: "istream \<Rightarrow> version \<Rightarrow> (u32 \<times> u64 \<times> u64 \<times> u64) \<times> istream" where
  "load_sizes strm v =
     (case load_u32 strm of (c_offset, is1) \<Rightarrow>
      case (if version_ge v (INNO_VERSION 4 0 1) then load_u64 is1 else (0, is1)) of
        (f_offset, is2) \<Rightarrow>
      if version_ge v (INNO_VERSION 4 0 0) then
        (case load_u64 is2 of (f_size, is3) \<Rightarrow>
         case load_u64 is3 of (c_size, is4) \<Rightarrow> ((c_offset, f_offset, f_size, c_size), is4))
      else
        (case load_u32 is2 of (f_size, is3) \<Rightarrow>
         case load_u32 is3 of (c_size, is4) \<Rightarrow>
           ((c_offset, f_offset, ucast f_size, ucast c_size), is4)))"

text \<open>
  Lines 61--73: the checksum. \<open>file.checksum\<close> is a union whose members \<open>md5\<close> and \<open>sha1\<close>
  are byte arrays at its start; \<open>storage\<close> is the content of the union's 20 bytes before
  the call, which \<open>is.read\<close> overwrites as far as it reads.
\<close>

definition load_checksum :: "istream \<Rightarrow> version \<Rightarrow> u8 list \<Rightarrow> checksum \<times> istream" where
  "load_checksum strm v storage =
     (if version_ge v (INNO_VERSION 5 3 9) then
        (case istream_read 20 storage strm of (sha1, is1) \<Rightarrow> (SHA1 sha1, is1))
      else if version_ge v (INNO_VERSION 4 2 0) then
        (case istream_read 16 storage strm of (md5, is1) \<Rightarrow> (MD5 md5, is1))
      else if version_ge v (INNO_VERSION 4 0 1) then
        (case load_u32 strm of (crc32, is1) \<Rightarrow> (CRC32 crc32, is1))
      else
        (case load_u32 strm of (adler, is1) \<Rightarrow> (Adler32 adler, is1)))"

text \<open>
  Lines 75--108: the timestamp. \<open>filetime / 10000000\<close> and \<open>filetime % 10000000\<close> are the
  division of C++ on \<open>int64_t\<close>, which truncates towards zero (\<open>sdiv\<close>, \<open>smod\<close>). The
  subtraction \<open>filetime -= FiletimeOffset\<close> is modelled with wrap-around; in C++ its
  overflow is undefined. \<open>boost::uint32_t(...) * 100\<close> is a product of 32-bit unsigned
  values.
\<close>

definition FiletimeOffset :: s64 where
  "FiletimeOffset = 0x19DB1DED53E8000"

definition load_timestamp ::
  "istream \<Rightarrow> version \<Rightarrow> log \<Rightarrow> (s64 \<times> u32) \<times> istream \<times> log" where
  "load_timestamp strm v lg =
     (if bits v = 16 then
        (case load_u16 strm of (time, is1) \<Rightarrow>
         case load_u16 is1 of (date, is2) \<Rightarrow>
         let t = \<lparr>tm_sec = uint (get_bits time 0 4) * 2,
                  tm_min = uint (get_bits time 5 10),
                  tm_hour = uint (get_bits time 11 15),
                  tm_mday = uint (get_bits date 0 4),
                  tm_mon = uint (get_bits date 5 8) - 1,
                  tm_year = uint (get_bits date 9 15) + 1980 - 1900,
                  tm_isdst = 0\<rparr>
         in ((parse_time t, 0), is2, lg))
      else
        (case load_s64 strm of (filetime, is1) \<Rightarrow>
         let lg' = (if filetime <s FiletimeOffset then lg @ [UnexpectedFiletime filetime] else lg);
             filetime' = filetime - FiletimeOffset
         in ((word_of_int (sint filetime' sdiv 10000000),
              (word_of_int (sint filetime' smod 10000000) :: u32) * 100), is1, lg')))"

text \<open>Lines 110--113: the file version.\<close>

definition load_file_version :: "istream \<Rightarrow> u64 \<times> istream" where
  "load_file_version strm =
     (case load_u32 strm of (file_version_ms, is1) \<Rightarrow>
      case load_u32 is1 of (file_version_ls, is2) \<Rightarrow>
        (push_bit 32 (ucast file_version_ms) OR ucast file_version_ls, is2))"

text \<open>Lines 115--148: the flags registered for the version, in registration order, and
  the options read with them.\<close>

definition flag_catalog :: "version \<Rightarrow> flags list" where
  "flag_catalog v =
     [VersionInfoValid, VersionInfoNotValid]
     @ (if version_ge v (INNO_VERSION 2 0 17) \<and> version_less v (INNO_VERSION 4 0 1)
        then [BZipped] else [])
     @ (if version_ge v (INNO_VERSION 4 0 10) then [TimeStampInUTC] else [])
     @ (if version_ge v (INNO_VERSION 4 1 0) then [IsUninstallerExe] else [])
     @ (if version_ge v (INNO_VERSION 4 1 8) then [CallInstructionOptimized] else [])
     @ (if version_ge v (INNO_VERSION 4 2 0) then [Touch] else [])
     @ (if version_ge v (INNO_VERSION 4 2 2) then [ChunkEncrypted] else [])
     @ (if version_ge v (INNO_VERSION 4 2 5) then [ChunkCompressed] else [])
     @ (if version_ge v (INNO_VERSION 5 1 13) then [SolidBreak] else [])"

definition load_options :: "istream \<Rightarrow> version \<Rightarrow> flags set \<times> istream" where
  "load_options strm v =
     (let options0 = (if version_ge v (INNO_VERSION 4 2 5) then {} else {ChunkCompressed}) in
      case stored_flag_reader (flag_catalog v) (bits v) strm of
        (flagreader, is1) \<Rightarrow> (options0 \<union> flagreader, is1))"

text \<open>\<open>data_entry::load\<close>; lines 150--172 derive the compression, the encryption and the
  filter from the options. The last argument is the content of the storage of
  \<open>file.checksum\<close> in the entry before the call; every other field is assigned.\<close>

definition data_entry_load ::
  "istream \<Rightarrow> version \<Rightarrow> log \<Rightarrow> u8 list \<Rightarrow> data_entry \<times> istream \<times> log" where
  "data_entry_load strm v lg storage =
     (case load_slices strm v lg of ((first_slice, last_slice), is1, lg1) \<Rightarrow>
      case load_sizes is1 v of ((c_offset, f_offset, f_size, c_size), is2) \<Rightarrow>
      case load_checksum is2 v storage of (csum, is3) \<Rightarrow>
      case load_timestamp is3 v lg1 of ((ts, ts_nsec), is4, lg2) \<Rightarrow>
      case load_file_version is4 of (fversion, is5) \<Rightarrow>
      case load_options is5 v of (opts, is6) \<Rightarrow>
      let compression0 = (if ChunkCompressed \<in> opts then UnknownCompression else Stored);
          opts' = (if BZipped \<in> opts then opts \<union> {ChunkCompressed} else opts);
          compression = (if BZipped \<in> opts then BZip2 else compression0);
          encrypted = (ChunkEncrypted \<in> opts');
          filter_kind =
            (if CallInstructionOptimized \<in> opts' then
               if version_less v (INNO_VERSION 5 2 0) then InstructionFilter4108
               else if version_less v (INNO_VERSION 5 3 9) then InstructionFilter5200
               else InstructionFilter5309
             else NoFilter)
      in (\<lparr>chunk_first_slice = first_slice, chunk_last_slice = last_slice,
            chunk_offset = c_offset, chunk_size = c_size,
            chunk_compression = compression, chunk_encrypted = encrypted,
            file_offset = f_offset, file_size = f_size, file_checksum = csum,
            file_filter = filter_kind, timestamp = ts, timestamp_nsec = ts_nsec,
            file_version = fversion, options = opts'\<rparr>, is6, lg2))"

section \<open>Definitions for the statements and proofs\<close>

subsection \<open>Adler-32\<close>

text \<open>The exact sums that the accumulations of \<open>update\<close> build when nothing overflows.\<close>

fun sum1 :: "nat \<Rightarrow> u8 list \<Rightarrow> nat" where
  "sum1 a [] = a"
| "sum1 a (x # xs) = sum1 (a + unat x) xs"

fun sum2 :: "nat \<Rightarrow> nat \<Rightarrow> u8 list \<Rightarrow> nat" where
  "sum2 a c [] = c"
| "sum2 a c (x # xs) = sum2 (a + unat x) (c + (a + unat x)) xs"

text \<open>The number of 8-byte rounds \<open>s2\<close> may still take before its next reduction, given
  the remaining length.\<close>

definition room :: "nat \<Rightarrow> nat" where
  "room n = (if n mod 32768 = 0 then 0 else 4096 - (n mod 32768) div 8)"

subsection \<open>The local time zone\<close>

text \<open>The sign inversion on one character.\<close>

definition flip_sign :: "char \<Rightarrow> char" where
  "flip_sign c = (if c = CHR ''+'' then CHR ''-'' else if c = CHR ''-'' then CHR ''+'' else c)"

subsection \<open>Data entries\<close>

text \<open>The stream as \<open>data_entry::load\<close> has it after the slice numbers, before the
  checksum and before the timestamp.\<close>

definition after_slices :: "istream \<Rightarrow> version \<Rightarrow> istream" where
  "after_slices strm v = snd (load_varint (snd (load_varint strm (bits v))) (bits v))"

definition before_checksum :: "istream \<Rightarrow> version \<Rightarrow> istream" where
  "before_checksum strm v = snd (load_sizes (after_slices strm v) v)"

definition before_timestamp :: "istream \<Rightarrow> version \<Rightarrow> u8 list \<Rightarrow> istream" where
  "before_timestamp strm v storage = snd (load_checksum (before_checksum strm v) v storage)"

subsection \<open>The PE image as the specification describes it\<close>

text \<open>
  An address belongs to a section iff \<open>virtual_address \<le> A < virtual_address + virtual_size\<close>,
  and its file offset is \<open>A + raw_address - virtual_address\<close>; both in the 32-bit
  arithmetic of the section fields. \<open>translate\<close> is the offset in the first section that
  covers the address, if any.
\<close>

definition covers :: "coff_section \<Rightarrow> u32 \<Rightarrow> bool" where
  "covers s a = (virtual_address s \<le> a \<and> a < virtual_address s + virtual_size s)"

definition translate :: "section_list \<Rightarrow> u32 \<Rightarrow> u32 option" where
  "translate sections a =
     map_option (\<lambda>s. a + raw_address s - virtual_address s) (find (\<lambda>s. covers s a) sections)"

text \<open>
  The header fields in the order the specification lists them (PE-header offset at
  \<open>0x3C\<close>, magic, section count, optional-header size, optional-header magic, directory
  count, resource RVA and size), read one after the other with no check in between.
\<close>

record pe_fields =
  pe_magic :: "u8 list"
  pe_nsections :: u16
  pe_section_table :: u32
  pe_ndirectories :: u32
  pe_resource_rva :: u32
  pe_resource_size :: u32
  pe_stream :: istream

definition read_pe_fields :: "istream \<Rightarrow> pe_fields" where
  "read_pe_fields strm =
     (case load_u16 (seekg 0x3c (seekg 0 strm)) of (pe_offset, t1) \<Rightarrow>
      case read_bytes 4 (seekg (unat pe_offset) t1) of (magic, t2) \<Rightarrow>
      case load_u16 (seekg_cur 2 t2) of (nsect, t3) \<Rightarrow>
      case load_u16 (seekg_cur 12 t3) of (optional_size, t4) \<Rightarrow>
      case load_u16 (seekg_cur 2 t4) of (optional_magic, t5) \<Rightarrow>
      case load_u32 (seekg_cur (if optional_magic = 0x20b then 106 else 90) t5) of
        (ndirs, t6) \<Rightarrow>
      case load_u32 (seekg_cur 16 t6) of (rva, t7) \<Rightarrow>
      case load_u32 t7 of (rsize, t8) \<Rightarrow>
        \<lparr>pe_magic = magic, pe_nsections = nsect,
         pe_section_table = word_of_int (tellg (seekg_cur 2 t4)) + ucast optional_size,
         pe_ndirectories = ndirs, pe_resource_rva = rva, pe_resource_size = rsize,
         pe_stream = t8\<rparr>)"

definition header_ok :: "pe_fields \<Rightarrow> bool" where
  "header_ok f \<longleftrightarrow> pe_magic f = PE_MAGIC \<and> 3 \<le> pe_ndirectories f
     \<and> pe_resource_rva f \<noteq> 0 \<and> pe_resource_size f \<noteq> 0"

text \<open>The ids of the id entries of a resource directory: a 16-byte header that ends with
  the counts of named and id entries, the named entries, then the id entries
  \<open>{u32 id, u32 entry}\<close>.\<close>

fun read_ids :: "nat \<Rightarrow> istream \<Rightarrow> u32 list" where
  "read_ids 0 strm = []"
| "read_ids (Suc n) strm =
     (case load_u32 strm of (i, strm') \<Rightarrow> i # read_ids n (seekg_cur 4 strm'))"

definition directory_ids :: "istream \<Rightarrow> u32 list" where
  "directory_ids strm =
     (case load_u16 (seekg_cur 12 strm) of (named, t1) \<Rightarrow>
      case load_u16 t1 of (ids, t2) \<Rightarrow>
        read_ids (unat ids) (seekg_cur (unat named * 8) t2))"

text \<open>
  The walk of the specification with its exits named: the format mismatches (no PE magic,
  fewer than three directories, no resource table, no section for an address), a level
  whose id is absent, a language entry that is a sub-directory, and the remaining ways to
  end (a short read, a type or name entry that is a leaf, a null language entry, an
  address that a section maps to file offset 0).
\<close>

datatype outcome =
  NotPE
| FewDirectories
| NoResourceTable
| NoSection
| MissingLevel nat
| SubdirectoryAtLeaf
| ShortRead
| TableAtOffsetZero
| DataAtOffsetZero
| NotADirectory nat
| NullEntry
| Found u32 u32

definition locate :: "istream \<Rightarrow> u32 \<Rightarrow> u32 \<Rightarrow> u32 \<Rightarrow> outcome" where
  "locate strm name type language =
     (let f = read_pe_fields strm in
      if pe_magic f \<noteq> PE_MAGIC then NotPE
      else if pe_ndirectories f < 3 then FewDirectories
      else if pe_resource_rva f = 0 \<or> pe_resource_size f = 0 then NoResourceTable
      else
      case load_sections (unat (pe_nsections f))
             (seekg (unat (pe_section_table f)) (pe_stream f)) of (sections, t1) \<Rightarrow>
      if failbit t1 then ShortRead else
      case translate sections (pe_resource_rva f) of
        None \<Rightarrow> NoSection
      | Some root \<Rightarrow>
      if root = 0 then TableAtOffsetZero else
      if type \<notin> set (directory_ids (seekg (unat root) t1)) then MissingLevel 1 else
      case find_resource_entry (seekg (unat root) t1) type of (e1, t2) \<Rightarrow>
      if \<not> bit e1 31 then NotADirectory 1 else
      if name \<notin> set (directory_ids (seekg (unat (take_bit 31 e1 + root)) t2))
      then MissingLevel 2 else
      case find_resource_entry (seekg (unat (take_bit 31 e1 + root)) t2) name of (e2, t3) \<Rightarrow>
      if \<not> bit e2 31 then NotADirectory 2 else
      if language \<notin> set (directory_ids (seekg (unat (take_bit 31 e2 + root)) t3))
      then MissingLevel 3 else
      case find_resource_entry (seekg (unat (take_bit 31 e2 + root)) t3) language of
        (e3, t4) \<Rightarrow>
      if bit e3 31 then SubdirectoryAtLeaf else
      if e3 = 0 then NullEntry else
      case load_u32 (seekg (unat (e3 + root)) t4) of (data_rva, t5) \<Rightarrow>
      case load_u32 t5 of (data_size, t6) \<Rightarrow>
      if failbit t6 then ShortRead else
      case translate sections data_rva of
        None \<Rightarrow> NoSection
      | Some data_offset \<Rightarrow>
          if data_offset = 0 then DataAtOffsetZero else Found data_offset data_size)"

text \<open>What \<open>find_resource\<close> returns for an outcome: the location found, else \<open>{0, 0}\<close>.\<close>

definition resource_of :: "outcome \<Rightarrow> resource" where
  "resource_of out =
     (case out of Found off sz \<Rightarrow> \<lparr>offset = ucast off, size_res = sz\<rparr>
      | _ \<Rightarrow> \<lparr>offset = 0, size_res = 0\<rparr>)"

section \<open>Test data\<close>

definition mkstream :: "u8 list \<Rightarrow> istream" where
  "mkstream bs = \<lparr>bytes = bs, gpos = 0, failbit = False\<rparr>"

definition inno :: "u8 \<Rightarrow> u8 \<Rightarrow> u16 \<Rightarrow> nat \<Rightarrow> version" where
  "inno a b c w = \<lparr>major = a, minor = b, patch = c, bits = w, unicode = False\<rparr>"

definition sample_bytes :: "u8 list" where
  "sample_bytes =
     [137, 168, 199, 230, 5, 36, 67, 98, 129, 160, 191, 222, 253, 28, 59, 90, 121,
      152, 183, 214, 245, 20, 51, 82, 113, 144, 175, 206, 237, 12, 43, 74, 105, 136,
      167, 198, 229, 4, 35, 66, 97, 128, 159, 190, 221, 252, 27, 58, 89, 120, 151,
      182, 213, 244, 19, 50, 81, 112, 143, 174, 205, 236, 11, 42, 73, 104, 135, 166,
      197, 228, 3, 34, 65, 96, 127, 158, 189, 220, 251, 26]"

text \<open>The sample cut off ten bytes into the checksum field of a version 4.2.0 entry.\<close>

definition truncated_bytes :: "u8 list" where
  "truncated_bytes = take 46 sample_bytes"

text \<open>A content of the checksum storage before a load.\<close>

definition old_storage :: "u8 list" where
  "old_storage =
     [163, 180, 197, 214, 231, 248, 9, 26, 43, 60, 77, 94, 111, 128, 145, 162, 179, 196, 213, 230]"

definition zero_bytes :: "u8 list" where
  "zero_bytes =
     [0, 0, 0, 0, 0, 0, 0, 0, 0, 0, 0, 0, 0, 0, 0, 0, 0, 0, 0, 0, 0, 0, 0, 0, 0, 0, 0,
      0, 0, 0, 0, 0, 0, 0, 0, 0, 0, 0, 0, 0, 0, 0, 0, 0, 0, 0, 0, 0]"

definition flagged_bytes :: "u8 list" where
  "flagged_bytes =
     [0, 0, 0, 0, 0, 0, 0, 0, 0, 0, 0, 0, 0, 0, 0, 0, 0, 0, 0, 0, 0, 0, 0, 0, 0, 0, 0,
      0, 0, 0, 0, 0, 0, 0, 0, 0, 0, 0, 0, 0, 7, 0, 0, 0, 0, 0, 0, 0]"

definition filetime_bytes :: "u8 list" where
  "filetime_bytes =
     [0, 0, 0, 0, 0, 0, 0, 0, 0, 0, 0, 0, 0, 0, 0, 0, 0, 0, 0, 0, 0, 0, 0, 0, 0, 0, 0,
      0, 0, 0, 0, 0, 0, 0, 0, 0, 0, 0, 0, 0, 0, 0, 0, 0, 0, 0, 0, 0, 0, 0, 0, 0, 255,
      127, 62, 213, 222, 177, 157, 1, 0, 0, 0, 0, 0, 0, 0, 0, 0]"

text \<open>A PE image with two sections and one resource (type 10, name 11111, language 0) of
  four bytes at file offset 488; the second section has raw address 0.\<close>

definition sample_image :: "u8 list" where
  "sample_image =
     [0, 0, 0, 0, 0, 0, 0, 0, 0, 0, 0, 0, 0, 0, 0, 0, 0, 0, 0, 0, 0, 0, 0, 0, 0, 0, 0,
      0, 0, 0, 0, 0, 0, 0, 0, 0, 0, 0, 0, 0, 0, 0, 0, 0, 0, 0, 0, 0, 0, 0, 0, 0, 0, 0,
      0, 0, 0, 0, 0, 0, 64, 0, 0, 0, 80, 69, 0, 0, 76, 1, 2, 0, 0, 0, 0, 0, 0, 0, 0,
      0, 0, 0, 0, 0, 224, 0, 2, 1, 11, 1, 0, 0, 0, 0, 0, 0, 0, 0, 0, 0, 0, 0, 0, 0, 0,
      0, 0, 0, 0, 0, 0, 0, 0, 0, 0, 0, 0, 0, 0, 0, 0, 0, 0, 0, 0, 0, 0, 0, 0, 0, 0, 0,
      0, 0, 0, 0, 0, 0, 0, 0, 0, 0, 0, 0, 0, 0, 0, 0, 0, 0, 0, 0, 0, 0, 0, 0, 0, 0, 0,
      0, 0, 0, 0, 0, 0, 0, 0, 0, 0, 0, 0, 0, 0, 0, 0, 0, 0, 0, 0, 0, 16, 0, 0, 0, 0,
      0, 0, 0, 0, 0, 0, 0, 0, 0, 0, 0, 0, 0, 0, 0, 0, 16, 0, 0, 100, 0, 0, 0, 0, 0, 0,
      0, 0, 0, 0, 0, 0, 0, 0, 0, 0, 0, 0, 0, 0, 0, 0, 0, 0, 0, 0, 0, 0, 0, 0, 0, 0, 0,
      0, 0, 0, 0, 0, 0, 0, 0, 0, 0, 0, 0, 0, 0, 0, 0, 0, 0, 0, 0, 0, 0, 0, 0, 0, 0, 0,
      0, 0, 0, 0, 0, 0, 0, 0, 0, 0, 0, 0, 0, 0, 0, 0, 0, 0, 0, 0, 0, 0, 0, 0, 0, 0, 0,
      0, 0, 0, 0, 0, 0, 0, 0, 0, 0, 0, 0, 0, 0, 0, 0, 0, 0, 0, 0, 46, 114, 115, 114,
      99, 0, 0, 0, 0, 16, 0, 0, 0, 16, 0, 0, 100, 0, 0, 0, 136, 1, 0, 0, 0, 0, 0, 0,
      0, 0, 0, 0, 0, 0, 0, 0, 0, 0, 0, 0, 46, 98, 115, 115, 0, 0, 0, 0, 0, 16, 0, 0,
      0, 32, 0, 0, 0, 0, 0, 0, 0, 0, 0, 0, 0, 0, 0, 0, 0, 0, 0, 0, 0, 0, 0, 0, 0, 0,
      0, 0, 0, 0, 0, 0, 0, 0, 0, 0, 0, 0, 0, 0, 0, 0, 1, 0, 10, 0, 0, 0, 24, 0, 0,
      128, 0, 0, 0, 0, 0, 0, 0, 0, 0, 0, 0, 0, 0, 0, 1, 0, 103, 43, 0, 0, 48, 0, 0,
      128, 0, 0, 0, 0, 0, 0, 0, 0, 0, 0, 0, 0, 0, 0, 1, 0, 0, 0, 0, 0, 72, 0, 0, 0,
      96, 16, 0, 0, 4, 0, 0, 0, 0, 0, 0, 0, 0, 0, 0, 0, 0, 0, 0, 0, 0, 0, 0, 0, 68,
      65, 84, 65]"

definition patch :: "nat \<Rightarrow> u8 list \<Rightarrow> u8 list \<Rightarrow> u8 list" where
  "patch k new img = take k img @ new @ drop (k + length new) img"

definition sample_sections :: section_list where
  "sample_sections =
     [\<lparr>virtual_size = 0x1000, virtual_address = 0x1000, raw_address = 392\<rparr>,
      \<lparr>virtual_size = 0x1000, virtual_address = 0x2000, raw_address = 0\<rparr>]"

section \<open>Adler-32: the deferred reductions\<close>

lemma sum1_ge: "a \<le> sum1 a xs"
proof (induction xs arbitrary: a)
  case Nil
  then show ?case by simp
next
  case (Cons x xs)
  have "a \<le> a + unat x" by simp
  also have "\<dots> \<le> sum1 (a + unat x) xs" by (rule Cons.IH)
  finally show ?case by simp
qed

lemma sum2_ge: "c \<le> sum2 a c xs"
proof (induction xs arbitrary: a c)
  case Nil
  then show ?case by simp
next
  case (Cons x xs)
  have "c \<le> c + (a + unat x)" by simp
  also have "\<dots> \<le> sum2 (a + unat x) (c + (a + unat x)) xs" by (rule Cons.IH)
  finally show ?case by simp
qed

lemma unat_u8_le: "unat (x :: u8) \<le> 255"
  using unsigned_less [of x, where ?'a = nat] by simp

lemma sum1_le: "sum1 a xs \<le> a + 255 * length xs"
proof (induction xs arbitrary: a)
  case Nil
  then show ?case by simp
next
  case (Cons x xs)
  have "sum1 (a + unat x) xs \<le> a + unat x + 255 * length xs" by (rule Cons.IH)
  with unat_u8_le [of x] show ?case by simp
qed

lemma sum2_le: "sum2 a c xs \<le> c + length xs * sum1 a xs"
proof (induction xs arbitrary: a c)
  case Nil
  then show ?case by simp
next
  case (Cons x xs)
  have "sum2 (a + unat x) (c + (a + unat x)) xs
          \<le> c + (a + unat x) + length xs * sum1 (a + unat x) xs" by (rule Cons.IH)
  moreover have "a + unat x \<le> sum1 (a + unat x) xs" by (rule sum1_ge)
  ultimately show ?case by simp
qed

lemma accumulate_exact:
  "sum1 a xs < 2 ^ 32 \<Longrightarrow> sum2 a c xs < 2 ^ 32 \<Longrightarrow>
   foldl accumulate (Some (a, c)) xs = Some (sum1 a xs, sum2 a c xs)"
proof (induction xs arbitrary: a c)
  case Nil
  then show ?case by simp
next
  case (Cons x xs)
  have "a + unat x \<le> sum1 (a + unat x) xs" by (rule sum1_ge)
  with Cons.prems have a: "a + unat x < 2 ^ 32" by simp
  have "c + (a + unat x) \<le> sum2 (a + unat x) (c + (a + unat x)) xs" by (rule sum2_ge)
  with Cons.prems have c: "c + (a + unat x) < 2 ^ 32" by simp
  from a c have "accumulate (Some (a, c)) x = Some (a + unat x, c + (a + unat x))"
    by (simp add: add_fast32_def)
  with Cons show ?case by simp
qed

lemma sums_mod:
  "foldl adler_step (a mod base, c mod base) xs = (sum1 a xs mod base, sum2 a c xs mod base)"
proof (induction xs arbitrary: a c)
  case Nil
  then show ?case by simp
next
  case (Cons x xs)
  have "adler_step (a mod base, c mod base) x
          = ((a + unat x) mod base, (c + (a + unat x)) mod base)"
  proof -
    have "(c + (a mod base + unat x)) mod base = (c + (a + unat x)) mod base"
    proof (rule mod_add_cong)
      show "c mod base = c mod base" by simp
      show "(a mod base + unat x) mod base = (a + unat x) mod base" by (rule mod_add_left_eq)
    qed
    then show ?thesis by (simp add: mod_add_left_eq)
  qed
  then show ?case using Cons.IH [of "a + unat x" "c + (a + unat x)"] by simp
qed

lemma rem8: "n mod 8 = 0 \<Longrightarrow> (n mod 32768) mod 8 = (0::nat)"
  by (simp add: mod_mod_cancel)

lemma div8_pos: "r mod 8 = 0 \<Longrightarrow> r \<noteq> 0 \<Longrightarrow> 1 \<le> (r::nat) div 8"
  by arith

lemma room_le: "n mod 8 = 0 \<Longrightarrow> room n \<le> 4095"
proof -
  assume "n mod 8 = 0"
  then have "(n mod 32768) mod 8 = 0" by (rule rem8)
  then have "n mod 32768 \<noteq> 0 \<Longrightarrow> 1 \<le> (n mod 32768) div 8"
    by (rule div8_pos)
  then show ?thesis unfolding room_def by auto
qed

lemma pred8_mod:
  assumes "8 \<le> (n::nat)"
  shows "(n - 8) mod 32768 = (if 8 \<le> n mod 32768 then n mod 32768 - 8 else n mod 32768 + 32760)"
proof -
  define r where "r = n mod 32768"
  have r: "r < 32768" by (simp add: r_def)
  have "(n - 8) mod 32768 = (n - 8 + 32768) mod 32768" by simp
  also have "n - 8 + 32768 = n + 32760" using assms by simp
  also have "(n + 32760) mod 32768 = (r + 32760) mod 32768"
    unfolding r_def by (simp add: mod_add_left_eq)
  also have "\<dots> = (if 8 \<le> r then r - 8 else r + 32760)"
  proof (cases "8 \<le> r")
    case True
    then have "r + 32760 = (r - 8) + 32768" by simp
    then have "(r + 32760) mod 32768 = (r - 8) mod 32768" by (metis mod_add_self2)
    with True r show ?thesis by simp
  next
    case False
    then show ?thesis by simp
  qed
  finally show ?thesis by (simp add: r_def)
qed

lemma room_step:
  assumes "n mod 8 = 0" "0 < n" "(n - 8) mod 32768 \<noteq> 0"
  shows "room n + 1 \<le> room (n - 8)"
proof -
  define r where "r = n mod 32768"
  have r8: "r mod 8 = 0" unfolding r_def using assms(1) by (rule rem8)
  have r: "r < 32768" by (simp add: r_def)
  from assms(1,2) have n8: "8 \<le> n" by arith
  have p: "(n - 8) mod 32768 = (if 8 \<le> r then r - 8 else r + 32760)"
    unfolding r_def using n8 by (rule pred8_mod)
  show ?thesis
  proof (cases "r = 0")
    case True
    with p have "(n - 8) mod 32768 = 32760" by simp
    then have "room (n - 8) = 1" by (simp add: room_def)
    moreover have "room n = 0" using True by (simp add: room_def r_def)
    ultimately show ?thesis by simp
  next
    case False
    with r8 have ge: "8 \<le> r" by arith
    with p have q: "(n - 8) mod 32768 = r - 8" by simp
    from ge r8 have d: "(r - 8) div 8 = r div 8 - 1" by arith
    from ge have d1: "1 \<le> r div 8" by arith
    from r have d2: "r div 8 \<le> 4096" by arith
    have "room n = 4096 - r div 8" using False by (simp add: room_def r_def)
    moreover have "room (n - 8) = 4096 - (r div 8 - 1)"
      using assms(3) q d by (simp add: room_def)
    ultimately show ?thesis using d1 d2 by arith
  qed
qed

lemma block8:
  assumes "a < base" "length ys \<le> 8"
  shows "sum1 a ys \<le> a + 2040" "sum2 a c ys \<le> c + 540480"
proof -
  have "sum1 a ys \<le> a + 255 * length ys" by (rule sum1_le)
  with assms show s1: "sum1 a ys \<le> a + 2040" by simp
  have "sum2 a c ys \<le> c + length ys * sum1 a ys" by (rule sum2_le)
  also have "length ys * sum1 a ys \<le> 8 * (a + 2040)"
    using assms(2) s1 by (rule mult_le_mono)
  finally show "sum2 a c ys \<le> c + 540480" using assms(1) by (simp add: base_def)
qed

lemma reduce_once: "a < base + base \<Longrightarrow> (if a \<ge> base then a - base else a) = a mod base"
  by (simp add: le_mod_geq)

lemma main_loop_correct:
  "length xs mod 8 = 0 \<Longrightarrow> a < base \<Longrightarrow> c \<le> 65520 + room (length xs) * 540480 \<Longrightarrow>
   main_loop a c xs = Some (adler_spec (a, c mod base) xs)"
proof (induction "length xs" arbitrary: a c xs rule: less_induct)
  case less
  show ?case
  proof (cases "xs = []")
    case True
    with less.prems show ?thesis
      by (simp add: main_loop.simps adler_spec_def room_def base_def)
  next
    case False
    define n where "n = length xs"
    from False have "0 < n" by (simp add: n_def)
    moreover from less.prems(1) have n8: "n mod 8 = 0" by (simp add: n_def)
    ultimately have npos: "0 < n" and nge: "8 \<le> n" by arith+
    define ys where "ys = take 8 xs"
    define rest where "rest = drop 8 xs"
    have xs: "xs = ys @ rest" by (simp add: ys_def rest_def)
    have lys: "length ys \<le> 8" by (simp add: ys_def)
    have lrest: "length rest = n - 8" by (simp add: rest_def n_def)
    define a' where "a' = sum1 a ys"
    define c' where "c' = sum2 a c ys"
    have a'le: "a' \<le> a + 2040" unfolding a'_def using less.prems(2) lys by (rule block8)
    have c'le: "c' \<le> c + 540480" unfolding c'_def using less.prems(2) lys by (rule block8)
    have roomn: "room n \<le> 4095" using n8 by (rule room_le)
    then have "room n * 540480 \<le> 4095 * 540480" by (rule mult_le_mono1)
    with less.prems(3) have cle: "c \<le> 65520 + 4095 * 540480"
      unfolding n_def [symmetric] by linarith
    have a32: "a' < 2 ^ 32" using a'le less.prems(2) by (simp add: base_def)
    have c32: "c' < 2 ^ 32" using c'le cle by simp
    have fold: "foldl accumulate (Some (a, c)) ys = Some (a', c')"
      using a32 c32 unfolding a'_def c'_def by (rule accumulate_exact)
    define a'' where "a'' = (if a' \<ge> base then a' - base else a')"
    define c'' where "c'' = (if length rest mod 0x8000 = 0 then c' mod base else c')"
    have "a' < base + base" using a'le less.prems(2) by (simp add: base_def)
    then have a''mod: "a'' = a' mod base" unfolding a''_def by (rule reduce_once)
    then have a''lt: "a'' < base" by (simp add: base_def)
    have c''mod: "c'' mod base = c' mod base" by (simp add: c''_def)
    have c''le: "c'' \<le> 65520 + room (length rest) * 540480"
    proof (cases "length rest mod 0x8000 = 0")
      case True
      have "c' mod base < base" by (simp add: base_def)
      with True show ?thesis by (simp add: c''_def base_def)
    next
      case False
      then have "(n - 8) mod 32768 \<noteq> 0" by (simp add: lrest)
      with n8 npos have "room n + 1 \<le> room (n - 8)" by (rule room_step)
      then have "(room n + 1) * 540480 \<le> room (length rest) * 540480"
        unfolding lrest by (rule mult_le_mono1)
      moreover have "c' \<le> 65520 + room n * 540480 + 540480"
        using c'le less.prems(3) by (simp add: n_def)
      ultimately show ?thesis using False by (simp add: c''_def)
    qed
    have "length rest < length xs" using nge npos by (simp add: lrest n_def)
    moreover have "length rest mod 8 = 0" using n8 nge unfolding lrest
      by (simp add: mod_eq_0_iff_dvd)
    ultimately have IH: "main_loop a'' c'' rest = Some (adler_spec (a'', c'' mod base) rest)"
      using a''lt c''le by (rule less.hyps)
    have unfold: "main_loop a c xs = main_loop a'' c'' rest"
      using False fold
      by (subst main_loop.simps)
         (simp add: ys_def [symmetric] rest_def [symmetric] a''_def c''_def Let_def)
    have "a mod base = a" using less.prems(2) by simp
    then have "adler_spec (a, c mod base) xs
                 = adler_spec (adler_spec (a mod base, c mod base) ys) rest"
      by (simp add: xs adler_spec_def)
    also have "adler_spec (a mod base, c mod base) ys = (a' mod base, c' mod base)"
      by (simp add: adler_spec_def sums_mod a'_def c'_def)
    finally show ?thesis using unfold IH a''mod c''mod by simp
  qed
qed

lemma foldl_accumulate_None: "foldl accumulate None ys = None"
  by (induction ys) simp_all

lemma catch_up_eq:
  "length xs mod 8 = k \<Longrightarrow> k \<noteq> 0 \<Longrightarrow>
   catch_up a c xs =
     map_option (\<lambda>p. (fst p, snd p, drop k xs)) (foldl accumulate (Some (a, c)) (take k xs))"
proof (induction xs arbitrary: a c k)
  case Nil
  then show ?case by simp
next
  case (Cons x xs)
  define m where "m = length xs mod 8"
  from Cons.prems have km: "k = Suc m"
    unfolding m_def by (simp add: mod_Suc split: if_splits)
  show ?case
  proof (cases "accumulate (Some (a, c)) x")
    case None
    then show ?thesis by (simp add: km foldl_accumulate_None del: accumulate.simps)
  next
    case (Some p)
    obtain a' c' where p: "p = (a', c')" by (cases p)
    show ?thesis
    proof (cases "m = 0")
      case True
      with Some p show ?thesis by (simp add: km m_def [symmetric] del: accumulate.simps)
    next
      case False
      have "length xs mod 8 = m" by (simp add: m_def)
      then have "catch_up a' c' xs =
        map_option (\<lambda>p. (fst p, snd p, drop m xs)) (foldl accumulate (Some (a', c')) (take m xs))"
        using False by (rule Cons.IH)
      with Some p False show ?thesis
        by (simp add: km m_def [symmetric] del: accumulate.simps)
    qed
  qed
qed

lemma u16_of_nat: "n < base \<Longrightarrow> unat (of_nat n :: u16) = n"
  by (simp add: base_def unat_of_nat)

lemma update_aligned:
  "length xs mod 8 = 0 \<Longrightarrow> main_loop (unat (s1 st)) (unat (s2 st)) xs = Some (a2, c2) \<Longrightarrow>
   update st xs = Some \<lparr>s1 = of_nat a2, s2 = of_nat c2\<rparr>"
  by (simp add: update_def)

lemma update_unaligned:
  "length xs mod 8 \<noteq> 0 \<Longrightarrow> catch_up (unat (s1 st)) (unat (s2 st)) xs = Some (a', c', rest) \<Longrightarrow>
   main_loop (if a' \<ge> base then a' - base else a') (c' mod base) rest = Some (a2, c2) \<Longrightarrow>
   update st xs = Some \<lparr>s1 = of_nat a2, s2 = of_nat c2\<rparr>"
  by (simp add: update_def)

lemma update_correct:
  assumes "unat (s1 st) < base" "unat (s2 st) < base"
  shows "\<exists>st'. update st xs = Some st'
           \<and> (unat (s1 st'), unat (s2 st')) = adler_spec (unat (s1 st), unat (s2 st)) xs
           \<and> unat (s1 st') < base \<and> unat (s2 st') < base"
proof -
  define a where "a = unat (s1 st)"
  define c where "c = unat (s2 st)"
  define k where "k = length xs mod 8"
  define ys where "ys = take k xs"
  define rest where "rest = drop k xs"
  have xs: "xs = ys @ rest" by (simp add: ys_def rest_def)
  have lys: "length ys \<le> 8" unfolding ys_def k_def by simp
  have lrest: "length rest mod 8 = 0"
    unfolding rest_def k_def by (simp add: mod_eq_0_iff_dvd dvd_minus_mod)
  define a' where "a' = sum1 a ys"
  define c' where "c' = sum2 a c ys"
  have alt: "a < base" and clt: "c < base" using assms by (simp_all add: a_def c_def)
  have a'le: "a' \<le> a + 2040" unfolding a'_def using alt lys by (rule block8)
  have c'le: "c' \<le> c + 540480" unfolding c'_def using alt lys by (rule block8)
  have a32: "a' < 2 ^ 32" using a'le alt by (simp add: base_def)
  have c32: "c' < 2 ^ 32" using c'le clt by (simp add: base_def)
  have fold: "foldl accumulate (Some (a, c)) ys = Some (a', c')"
    using a32 c32 unfolding a'_def c'_def by (rule accumulate_exact)
  have "a' < base + base" using a'le alt by (simp add: base_def)
  then have red: "(if a' \<ge> base then a' - base else a') = a' mod base" by (rule reduce_once)
  have pre: "adler_spec (a, c) ys = (a' mod base, c' mod base)"
    using sums_mod [of a c ys] alt clt by (simp add: adler_spec_def a'_def c'_def)
  have bnd: "a' mod base < base" "c' mod base \<le> 65520 + room (length rest) * 540480"
    by (simp_all add: base_def less_Suc_eq_le [symmetric] trans_less_add1)
  have loop: "main_loop (a' mod base) (c' mod base) rest
                = Some (adler_spec (a' mod base, c' mod base mod base) rest)"
    using lrest bnd by (rule main_loop_correct)
  have spec: "adler_spec (a, c) xs = adler_spec (a' mod base, c' mod base) rest"
    using pre by (simp add: xs adler_spec_def)
  obtain a2 c2 where r: "adler_spec (a, c) xs = (a2, c2)" by (cases "adler_spec (a, c) xs")
  have r_lt: "a2 < base \<and> c2 < base"
  proof -
    have "fst (foldl adler_step p zs) < base \<and> snd (foldl adler_step p zs) < base"
      if "fst p < base \<and> snd p < base" for p zs
      using that
    proof (induction zs arbitrary: p)
      case Nil
      then show ?case by simp
    next
      case (Cons z zs)
      have "fst (adler_step p z) < base \<and> snd (adler_step p z) < base"
        by (cases p) (simp add: base_def)
      then show ?case using Cons.IH by simp
    qed
    from this [of "(a, c)" xs] alt clt r show ?thesis by (simp add: adler_spec_def)
  qed
  have upd: "update st xs = Some \<lparr>s1 = of_nat a2, s2 = of_nat c2\<rparr>"
  proof (cases "k = 0")
    case True
    then have "ys = []" by (simp add: ys_def)
    then have e: "rest = xs" "a' = a" "c' = c" by (simp_all add: xs a'_def c'_def)
    from True have al: "length xs mod 8 = 0" by (simp add: k_def)
    from loop r alt clt have "main_loop a c xs = Some (a2, c2)"
      unfolding e by simp
    then have "main_loop (unat (s1 st)) (unat (s2 st)) xs = Some (a2, c2)"
      by (simp only: a_def c_def)
    with al show ?thesis by (rule update_aligned)
  next
    case False
    then have ual: "length xs mod 8 \<noteq> 0" by (simp add: k_def)
    then have "catch_up a c xs = Some (a', c', rest)"
      using catch_up_eq [of xs k a c] fold False
      by (simp add: k_def [symmetric] ys_def [symmetric] rest_def [symmetric])
    then have cu: "catch_up (unat (s1 st)) (unat (s2 st)) xs = Some (a', c', rest)"
      by (simp only: a_def c_def)
    from loop spec r
    have "main_loop (if a' \<ge> base then a' - base else a') (c' mod base) rest = Some (a2, c2)"
      unfolding red by simp
    with ual cu show ?thesis by (rule update_unaligned)
  qed
  show ?thesis
    using upd r r_lt by (simp add: u16_of_nat a_def c_def)
qed

lemma adler_spec_append: "adler_spec p (xs @ ys) = adler_spec (adler_spec p xs) ys"
  by (simp add: adler_spec_def)

lemma update_chunks_correct:
  "unat (s1 st) < base \<Longrightarrow> unat (s2 st) < base \<Longrightarrow>
   \<exists>st'. update_chunks st cs = Some st'
      \<and> (unat (s1 st'), unat (s2 st')) = adler_spec (unat (s1 st), unat (s2 st)) (concat cs)"
proof (induction cs arbitrary: st)
  case Nil
  then show ?case by (simp add: adler_spec_def)
next
  case (Cons c cs)
  from update_correct [OF Cons.prems, of c]
  obtain st1 where u: "update st c = Some st1"
    and v: "(unat (s1 st1), unat (s2 st1)) = adler_spec (unat (s1 st), unat (s2 st)) c"
    and r: "unat (s1 st1) < base" "unat (s2 st1) < base" by blast
  from Cons.IH [OF r]
  obtain st' where u': "update_chunks st1 cs = Some st'"
    and v': "(unat (s1 st'), unat (s2 st')) = adler_spec (unat (s1 st1), unat (s2 st1)) (concat cs)"
    by blast
  from u u' have "update_chunks st (c # cs) = Some st'" by simp
  moreover from v v'
  have "(unat (s1 st'), unat (s2 st')) = adler_spec (unat (s1 st), unat (s2 st)) (concat (c # cs))"
    by (simp add: adler_spec_append)
  ultimately show ?case by blast
qed

lemma adler32_eqI: "unat (s1 st) = unat (s1 st') \<Longrightarrow> unat (s2 st) = unat (s2 st') \<Longrightarrow> st = (st' :: adler32)"
  by (cases st, cases st') (simp add: word_unat_eq_iff)

lemma init_reduced: "unat (s1 adler32_init) < base" "unat (s2 adler32_init) < base"
  by (simp_all add: adler32_init_def base_def)

text \<open>
  Claim C7. For every byte sequence and every partition of it into consecutive chunks,
  feeding the chunks through \<open>update\<close> in order from the initial state \<open>(1, 0)\<close> yields
  the same state, hence the same final checksum, as one \<open>update\<close> on the whole sequence;
  both computations return (no sum leaves the 32-bit range).
\<close>

theorem update_chunking:
  "\<exists>st. update_chunks adler32_init cs = Some st \<and> update adler32_init (concat cs) = Some st
     \<and> map_option finalize (update_chunks adler32_init cs)
       = map_option finalize (update adler32_init (concat cs))"
proof -
  from update_chunks_correct [OF init_reduced, of cs]
  obtain st where a: "update_chunks adler32_init cs = Some st"
    and b: "(unat (s1 st), unat (s2 st))
              = adler_spec (unat (s1 adler32_init), unat (s2 adler32_init)) (concat cs)"
    by blast
  from update_correct [OF init_reduced, of "concat cs"]
  obtain st' where a': "update adler32_init (concat cs) = Some st'"
    and b': "(unat (s1 st'), unat (s2 st'))
              = adler_spec (unat (s1 adler32_init), unat (s2 adler32_init)) (concat cs)"
    by blast
  from b b' [symmetric] have "(unat (s1 st), unat (s2 st)) = (unat (s1 st'), unat (s2 st'))"
    by (rule trans)
  then have "st = st'" by (intro adler32_eqI) simp_all
  with a a' show ?thesis by simp
qed


theorem update_chunking_witness:
  "update_chunks adler32_init [[0x57, 0x69, 0x6B], [], [0x69, 0x70, 0x65, 0x64, 0x69, 0x61]]
     = Some \<lparr>s1 = 0x0398, s2 = 0x11E6\<rparr>
   \<and> update adler32_init [0x57, 0x69, 0x6B, 0x69, 0x70, 0x65, 0x64, 0x69, 0x61]
     = Some \<lparr>s1 = 0x0398, s2 = 0x11E6\<rparr>
   \<and> finalize \<lparr>s1 = 0x0398, s2 = 0x11E6\<rparr> = 0x11E60398"
proof -
  have u: "update adler32_init [0x57, 0x69, 0x6B, 0x69, 0x70, 0x65, 0x64, 0x69, 0x61]
     = Some \<lparr>s1 = 0x0398, s2 = 0x11E6\<rparr>"
    by (simp add: update_def adler32_init_def main_loop.simps add_fast32_def base_def)
  have f: "finalize \<lparr>s1 = 0x0398, s2 = 0x11E6\<rparr> = 0x11E60398"
    by (simp add: finalize_def)
  from update_chunking [of "[[0x57, 0x69, 0x6B], [], [0x69, 0x70, 0x65, 0x64, 0x69, 0x61]]"] u f
  show ?thesis by simp
qed

text \<open>
  Claim C9. \<open>update\<close> keeps both halves of the state fully reduced: from \<open>s1 < 65521\<close> and
  \<open>s2 < 65521\<close> it returns a state with \<open>s1 < 65521\<close> and \<open>s2 < 65521\<close>, for an input of
  any length, and it returns \<open>Some\<close>: no intermediate sum exceeds the 32-bit range.
\<close>

theorem update_keeps_reduced:
  "unat (s1 st) < 65521 \<Longrightarrow> unat (s2 st) < 65521 \<Longrightarrow>
   \<exists>st'. update st input = Some st' \<and> unat (s1 st') < 65521 \<and> unat (s2 st') < 65521"
  using update_correct [of st input] by (auto simp: base_def)

theorem update_keeps_reduced_witness:
  "unat (s1 adler32_init) < 65521 \<and> unat (s2 adler32_init) < 65521
   \<and> (\<exists>st'. update adler32_init [0x57, 0x69, 0x6B, 0x69, 0x70, 0x65, 0x64, 0x69, 0x61] = Some st'
         \<and> unat (s1 st') < 65521 \<and> unat (s2 st') < 65521)"
  using update_keeps_reduced [of adler32_init "[0x57, 0x69, 0x6B, 0x69, 0x70, 0x65, 0x64, 0x69, 0x61]"]
  by (simp add: adler32_init_def)

section \<open>Evaluation on concrete streams\<close>

lemmas reader_defs = istream_read_def load_varint_def load_u8_def load_u16_def load_u32_def load_u64_def load_s64_def
  read_bytes_def le_nat_def mkstream_def seekg_def seekg_cur_def tellg_def

lemmas version_defs = inno_def INNO_VERSION_def version_ge_def

lemmas entry_defs = data_entry_load_def load_slices_def load_sizes_def load_checksum_def
  load_timestamp_def load_file_version_def load_options_def flag_catalog_def
  stored_flag_reader_def flag_bytes_def FiletimeOffset_def
  before_timestamp_def before_checksum_def after_slices_def

lemmas exe_defs = find_resource_def load_header_def load_section_list_def find_resource_entry_def
  get_resource_table_def PE_MAGIC_def Let_def

lemma load_sections_numeral:
  "load_sections (numeral k) strm =
     (case load_u32 (seekg_cur 8 strm) of (vsize, is1) \<Rightarrow>
      case load_u32 is1 of (vaddr, is2) \<Rightarrow>
      case load_u32 (seekg_cur 4 is2) of (raddr, is3) \<Rightarrow>
      case load_sections (pred_numeral k) (seekg_cur (4 + 4 + 2 + 2 + 4) is3) of (table, is4) \<Rightarrow>
        (\<lparr>virtual_size = vsize, virtual_address = vaddr, raw_address = raddr\<rparr> # table, is4))"
  by (simp add: numeral_eq_Suc)

lemma scan_ids_numeral:
  "scan_ids (numeral k) needle strm =
     (case load_u32 strm of (id', is1) \<Rightarrow>
      case load_u32 is1 of (entry, is2) \<Rightarrow>
        if failbit is2 then (0, is2)
        else if id' = needle then (entry, is2)
        else scan_ids (pred_numeral k) needle is2)"
  by (simp add: numeral_eq_Suc)

lemma read_ids_numeral:
  "read_ids (numeral k) strm =
     (case load_u32 strm of (i, strm') \<Rightarrow> i # read_ids (pred_numeral k) (seekg_cur 4 strm'))"
  by (simp add: numeral_eq_Suc)

lemmas locate_defs = locate_def read_pe_fields_def directory_ids_def translate_def covers_def
  find_resource_entry_def PE_MAGIC_def Let_def load_sections_numeral scan_ids_numeral
  read_ids_numeral patch_def sample_image_def

section \<open>Data entries\<close>

lemma load_slices_stream: "fst (snd (load_slices strm v lg)) = after_slices strm v"
  by (simp add: load_slices_def after_slices_def split_beta)

lemma data_entry_load_checksum:
  "file_checksum (fst (data_entry_load strm v lg old))
     = fst (load_checksum (before_checksum strm v) v old)"
  by (simp add: data_entry_load_def before_checksum_def Let_def split_beta load_slices_stream)

lemma data_entry_load_stream:
  "fst (snd (data_entry_load strm v lg old))
     = snd (load_options
             (snd (load_file_version
                     (fst (snd (load_timestamp (before_timestamp strm v old) v
                                  (snd (snd (load_slices strm v lg))))))))
             v)"
  by (simp add: data_entry_load_def before_timestamp_def before_checksum_def Let_def split_beta
        load_slices_stream)

lemma complete_read:
  "\<not> failbit s \<Longrightarrow> gpos s + n \<le> length (bytes s) \<Longrightarrow>
   istream_read n buf s = (take n (drop (gpos s) (bytes s)), s\<lparr>gpos := gpos s + n\<rparr>)
   \<and> read_bytes n s = (take n (drop (gpos s) (bytes s)), s\<lparr>gpos := gpos s + n\<rparr>)"
  by (simp add: istream_read_def read_bytes_def Let_def)

text \<open>
  Claim C1. \<open>data_entry::load\<close> reads exactly one checksum field, by the first matching
  version rule: 20 bytes tagged SHA1 from 5.3.9, else 16 bytes tagged MD5 from 4.2.0, else
  a \<open>u32\<close> tagged CRC32 from 4.0.1, else a \<open>u32\<close> tagged Adler32. The entry's checksum is
  the one read where the size fields end; the load leaves the stream where the timestamp,
  the file version and the options leave it when they start right after that one read;
  and a read of \<open>n\<close> bytes that the stream holds yields those bytes and moves the stream
  by \<open>n\<close>.
\<close>

theorem checksum_selection:
  "file_checksum (fst (data_entry_load strm v lg old))
     = fst (load_checksum (before_checksum strm v) v old)
   \<and> fst (snd (data_entry_load strm v lg old))
       = snd (load_options
               (snd (load_file_version
                       (fst (snd (load_timestamp
                                    (snd (load_checksum (before_checksum strm v) v old)) v
                                    (snd (snd (load_slices strm v lg))))))))
               v)
   \<and> load_checksum s v old =
       (if version_ge v (INNO_VERSION 5 3 9)
          then (SHA1 (fst (istream_read 20 old s)), snd (istream_read 20 old s))
        else if version_ge v (INNO_VERSION 4 2 0)
          then (MD5 (fst (istream_read 16 old s)), snd (istream_read 16 old s))
        else if version_ge v (INNO_VERSION 4 0 1)
          then (CRC32 (fst (load_u32 s)), snd (read_bytes 4 s))
        else (Adler32 (fst (load_u32 s)), snd (read_bytes 4 s)))
   \<and> (\<not> failbit s \<and> gpos s + n \<le> length (bytes s) \<longrightarrow>
        istream_read n old s = (take n (drop (gpos s) (bytes s)), s\<lparr>gpos := gpos s + n\<rparr>)
        \<and> read_bytes n s = (take n (drop (gpos s) (bytes s)), s\<lparr>gpos := gpos s + n\<rparr>))"
  using complete_read [of s n old] data_entry_load_stream [of strm v lg old]
  by (simp add: data_entry_load_checksum before_timestamp_def load_checksum_def load_u32_def
        split_beta)

theorem checksum_selection_witness:
  "file_checksum (fst (data_entry_load (mkstream sample_bytes) (inno 3 0 0 32) [] old_storage))
     = Adler32 0x523314F5
   \<and> gpos (fst (snd (data_entry_load (mkstream sample_bytes) (inno 3 0 0 32) [] old_storage)))
     = 41
   \<and> file_checksum (fst (data_entry_load (mkstream sample_bytes) (inno 4 0 1 32) [] old_storage))
     = CRC32 0x422304E5
   \<and> file_checksum (fst (data_entry_load (mkstream sample_bytes) (inno 4 2 0 32) [] old_storage))
     = MD5 [229, 4, 35, 66, 97, 128, 159, 190, 221, 252, 27, 58, 89, 120, 151, 182]
   \<and> gpos (fst (snd (data_entry_load (mkstream sample_bytes) (inno 4 2 0 32) [] old_storage)))
     = 69
   \<and> file_checksum (fst (data_entry_load (mkstream sample_bytes) (inno 5 3 9 32) [] old_storage))
     = SHA1 [229, 4, 35, 66, 97, 128, 159, 190, 221, 252, 27, 58, 89, 120, 151,
           182, 213, 244, 19, 50]
   \<and> gpos (fst (snd (data_entry_load (mkstream sample_bytes) (inno 5 3 9 32) [] old_storage)))
     = 74
   \<and> \<not> failbit (before_checksum (mkstream sample_bytes) (inno 5 3 9 32))
   \<and> gpos (before_checksum (mkstream sample_bytes) (inno 5 3 9 32)) + 20
       \<le> length (bytes (before_checksum (mkstream sample_bytes) (inno 5 3 9 32)))
   \<and> gpos (snd (istream_read 20 old_storage
                  (before_checksum (mkstream sample_bytes) (inno 5 3 9 32)))) = 56
   \<and> file_checksum (fst (data_entry_load (mkstream truncated_bytes) (inno 4 2 0 32) []
                            old_storage))
     = MD5 [229, 4, 35, 66, 97, 128, 159, 190, 221, 252, 77, 94, 111, 128, 145, 162]"
proof -
  note c = checksum_selection [of "mkstream sample_bytes" _ "[]" old_storage
      "before_checksum (mkstream sample_bytes) (inno 5 3 9 32)" 20]
  have a: "fst (load_checksum (before_checksum (mkstream sample_bytes) (inno 3 0 0 32))
              (inno 3 0 0 32) old_storage) = Adler32 0x523314F5"
    by (simp add: sample_bytes_def old_storage_def reader_defs version_defs entry_defs)
  have b: "fst (load_checksum (before_checksum (mkstream sample_bytes) (inno 4 0 1 32))
              (inno 4 0 1 32) old_storage) = CRC32 0x422304E5"
    by (simp add: sample_bytes_def old_storage_def reader_defs version_defs entry_defs)
  have d: "fst (load_checksum (before_checksum (mkstream sample_bytes) (inno 4 2 0 32))
              (inno 4 2 0 32) old_storage)
     = MD5 [229, 4, 35, 66, 97, 128, 159, 190, 221, 252, 27, 58, 89, 120, 151, 182]"
    by (simp add: sample_bytes_def old_storage_def reader_defs version_defs entry_defs)
  have e: "fst (load_checksum (before_checksum (mkstream sample_bytes) (inno 5 3 9 32))
              (inno 5 3 9 32) old_storage)
     = SHA1 [229, 4, 35, 66, 97, 128, 159, 190, 221, 252, 27, 58, 89, 120, 151,
           182, 213, 244, 19, 50]"
    by (simp add: sample_bytes_def old_storage_def reader_defs version_defs entry_defs)
  have t: "fst (load_checksum (before_checksum (mkstream truncated_bytes) (inno 4 2 0 32))
              (inno 4 2 0 32) old_storage)
     = MD5 [229, 4, 35, 66, 97, 128, 159, 190, 221, 252, 77, 94, 111, 128, 145, 162]"
    by (simp add: truncated_bytes_def sample_bytes_def old_storage_def reader_defs version_defs
          entry_defs)
  have g3: "gpos (fst (snd (data_entry_load (mkstream sample_bytes) (inno 3 0 0 32) []
                old_storage))) = 41"
    by (simp add: sample_bytes_def old_storage_def reader_defs version_defs entry_defs Let_def)
  have g4: "gpos (fst (snd (data_entry_load (mkstream sample_bytes) (inno 4 2 0 32) []
                old_storage))) = 69"
    by (simp add: sample_bytes_def old_storage_def reader_defs version_defs entry_defs Let_def)
  have g5: "gpos (fst (snd (data_entry_load (mkstream sample_bytes) (inno 5 3 9 32) []
                old_storage))) = 74"
    by (simp add: sample_bytes_def old_storage_def reader_defs version_defs entry_defs Let_def)
  have h: "\<not> failbit (before_checksum (mkstream sample_bytes) (inno 5 3 9 32))"
    "gpos (before_checksum (mkstream sample_bytes) (inno 5 3 9 32)) + 20
       \<le> length (bytes (before_checksum (mkstream sample_bytes) (inno 5 3 9 32)))"
    "gpos (before_checksum (mkstream sample_bytes) (inno 5 3 9 32)) = 36"
    by (simp_all add: sample_bytes_def reader_defs version_defs entry_defs)
  from c [of "inno 3 0 0 32"] c [of "inno 4 0 1 32"] c [of "inno 4 2 0 32"]
    c [of "inno 5 3 9 32"]
    checksum_selection [of "mkstream truncated_bytes" "inno 4 2 0 32" "[]" old_storage
      "before_checksum (mkstream sample_bytes) (inno 5 3 9 32)" 20]
    a b d e t g3 g4 g5 h
  show ?thesis by simp
qed

lemma load_slices_log_mono: "set lg \<subseteq> set (snd (snd (load_slices strm v lg)))"
  by (auto simp: load_slices_def split_beta)

lemma load_timestamp_log_mono: "set lg \<subseteq> set (snd (snd (load_timestamp strm v lg)))"
  by (auto simp: load_timestamp_def split_beta Let_def)

lemma data_entry_load_log:
  "snd (snd (data_entry_load strm v lg old))
     = snd (snd (load_timestamp (before_timestamp strm v old) v (snd (snd (load_slices strm v lg)))))"
  by (simp add: data_entry_load_def before_timestamp_def before_checksum_def Let_def split_beta
        load_slices_stream)

lemma data_entry_load_slices:
  "chunk_first_slice (fst (data_entry_load strm v lg old)) = fst (fst (load_slices strm v lg))"
  "chunk_last_slice (fst (data_entry_load strm v lg old)) = snd (fst (load_slices strm v lg))"
  by (simp_all add: data_entry_load_def Let_def split_beta)

text \<open>
  Claim C3. Before version 4.0.0 the stored slice numbers are 1-based: if both are at
  least 1, \<open>first_slice\<close> and \<open>last_slice\<close> are each decremented by one; if either is 0, a
  warning is logged. From 4.0.0 on both are kept as read.
\<close>

theorem slice_numbers:
  "(version_less v (INNO_VERSION 4 0 0) \<longrightarrow>
      (1 \<le> fst (load_varint strm (bits v))
         \<and> 1 \<le> fst (load_varint (snd (load_varint strm (bits v))) (bits v)) \<longrightarrow>
       chunk_first_slice (fst (data_entry_load strm v lg old)) = fst (load_varint strm (bits v)) - 1
       \<and> chunk_last_slice (fst (data_entry_load strm v lg old))
           = fst (load_varint (snd (load_varint strm (bits v))) (bits v)) - 1)
      \<and> (fst (load_varint strm (bits v)) = 0
           \<or> fst (load_varint (snd (load_varint strm (bits v))) (bits v)) = 0 \<longrightarrow>
         UnexpectedSliceNumber (fst (load_varint strm (bits v)))
             (fst (load_varint (snd (load_varint strm (bits v))) (bits v)))
           \<in> set (snd (snd (data_entry_load strm v lg old)))))
   \<and> (version_ge v (INNO_VERSION 4 0 0) \<longrightarrow>
       chunk_first_slice (fst (data_entry_load strm v lg old)) = fst (load_varint strm (bits v))
       \<and> chunk_last_slice (fst (data_entry_load strm v lg old))
           = fst (load_varint (snd (load_varint strm (bits v))) (bits v)))"
proof -
  define a where "a = fst (load_varint strm (bits v))"
  define b where "b = fst (load_varint (snd (load_varint strm (bits v))) (bits v))"
  have sl: "load_slices strm v lg =
    (if version_less v (INNO_VERSION 4 0 0) then
       if a < 1 \<or> b < 1
       then ((a, b), after_slices strm v, lg @ [UnexpectedSliceNumber a b])
       else ((a - 1, b - 1), after_slices strm v, lg)
     else ((a, b), after_slices strm v, lg))"
    by (simp add: load_slices_def after_slices_def a_def b_def split_beta)
  have ok: "\<not> (a < 1 \<or> b < 1)" if "1 \<le> a \<and> 1 \<le> b"
    using that by (simp only: de_Morgan_disj not_less)
  have bad: "a < 1 \<or> b < 1" if "a = 0 \<or> b = 0"
    using that by auto
  have dec: "chunk_first_slice (fst (data_entry_load strm v lg old)) = a - 1
      \<and> chunk_last_slice (fst (data_entry_load strm v lg old)) = b - 1"
    if "version_less v (INNO_VERSION 4 0 0)" "1 \<le> a \<and> 1 \<le> b"
    using that(1) ok [OF that(2)] by (simp only: data_entry_load_slices sl if_True if_False fst_conv snd_conv simp_thms)
  have warn: "UnexpectedSliceNumber a b \<in> set (snd (snd (data_entry_load strm v lg old)))"
    if "version_less v (INNO_VERSION 4 0 0)" "a = 0 \<or> b = 0"
  proof -
    have "snd (snd (load_slices strm v lg)) = lg @ [UnexpectedSliceNumber a b]"
      using that(1) bad [OF that(2)] by (simp only: sl if_True snd_conv)
    then have "UnexpectedSliceNumber a b \<in> set (snd (snd (load_slices strm v lg)))"
      by simp
    then show ?thesis
      unfolding data_entry_load_log using load_timestamp_log_mono by blast
  qed
  have keep: "chunk_first_slice (fst (data_entry_load strm v lg old)) = a
      \<and> chunk_last_slice (fst (data_entry_load strm v lg old)) = b"
    if "version_ge v (INNO_VERSION 4 0 0)"
    using that by (simp add: data_entry_load_slices sl version_ge_def)
  show ?thesis
    unfolding a_def [symmetric] b_def [symmetric]
    using dec warn keep by blast
qed

theorem slice_numbers_witness:
  "version_less (inno 3 0 0 32) (INNO_VERSION 4 0 0)
   \<and> fst (load_varint (mkstream sample_bytes) 32) = 0xE6C7A889
   \<and> chunk_first_slice (fst (data_entry_load (mkstream sample_bytes) (inno 3 0 0 32) [] old_storage))
       = 0xE6C7A888
   \<and> chunk_last_slice (fst (data_entry_load (mkstream sample_bytes) (inno 3 0 0 32) [] old_storage))
       = 0x62432404
   \<and> fst (load_varint (mkstream zero_bytes) 32) = 0
   \<and> UnexpectedSliceNumber 0 0
       \<in> set (snd (snd (data_entry_load (mkstream zero_bytes) (inno 3 0 0 32) [] old_storage)))
   \<and> version_ge (inno 4 0 0 32) (INNO_VERSION 4 0 0)
   \<and> chunk_first_slice (fst (data_entry_load (mkstream sample_bytes) (inno 4 0 0 32) [] old_storage))
       = 0xE6C7A889
   \<and> chunk_last_slice (fst (data_entry_load (mkstream sample_bytes) (inno 4 0 0 32) [] old_storage))
       = 0x62432405"
proof -
  have v3: "version_less (inno 3 0 0 32) (INNO_VERSION 4 0 0)" "bits (inno 3 0 0 32) = 32"
    by (simp_all add: version_defs)
  have v4: "version_ge (inno 4 0 0 32) (INNO_VERSION 4 0 0)" "bits (inno 4 0 0 32) = 32"
    by (simp_all add: version_defs)
  have a: "fst (load_varint (mkstream sample_bytes) 32) = 0xE6C7A889"
    "fst (load_varint (snd (load_varint (mkstream sample_bytes) 32)) 32) = 0x62432405"
    by (simp_all add: sample_bytes_def reader_defs)
  have z: "fst (load_varint (mkstream zero_bytes) 32) = 0"
    "fst (load_varint (snd (load_varint (mkstream zero_bytes) 32)) 32) = 0"
    by (simp_all add: zero_bytes_def reader_defs)
  from slice_numbers [of "inno 3 0 0 32" "mkstream sample_bytes" "[]" old_storage]
    slice_numbers [of "inno 3 0 0 32" "mkstream zero_bytes" "[]" old_storage]
    slice_numbers [of "inno 4 0 0 32" "mkstream sample_bytes" "[]" old_storage]
    v3 v4 a z
  show ?thesis by simp
qed

text \<open>
  Claim C6. Before version 4.2.5 the options always contain \<open>ChunkCompressed\<close>, which is
  then not among the flags read from the stream; \<open>chunk.compression\<close> is \<open>BZip2\<close> if
  \<open>BZipped\<close> is in the options, else \<open>UnknownCompression\<close> if \<open>ChunkCompressed\<close> is, else
  \<open>Stored\<close>; and \<open>chunk.encrypted\<close> holds iff \<open>ChunkEncrypted\<close> is in the options.
\<close>

theorem compression_from_options:
  "(version_less v (INNO_VERSION 4 2 5) \<longrightarrow>
      ChunkCompressed \<in> options (fst (data_entry_load strm v lg old))
      \<and> ChunkCompressed \<notin> set (flag_catalog v))
   \<and> chunk_compression (fst (data_entry_load strm v lg old))
       = (if BZipped \<in> options (fst (data_entry_load strm v lg old)) then BZip2
          else if ChunkCompressed \<in> options (fst (data_entry_load strm v lg old))
          then UnknownCompression else Stored)
   \<and> (chunk_encrypted (fst (data_entry_load strm v lg old))
        \<longleftrightarrow> ChunkEncrypted \<in> options (fst (data_entry_load strm v lg old)))"
  by (simp add: data_entry_load_def load_options_def flag_catalog_def version_ge_def
        Let_def split_beta)

theorem compression_from_options_witness:
  "version_less (inno 3 0 0 32) (INNO_VERSION 4 2 5)
   \<and> options (fst (data_entry_load (mkstream sample_bytes) (inno 3 0 0 32) [] old_storage))
       = {ChunkCompressed, VersionInfoValid}
   \<and> chunk_compression (fst (data_entry_load (mkstream sample_bytes) (inno 3 0 0 32) [] old_storage))
       = UnknownCompression
   \<and> options (fst (data_entry_load (mkstream flagged_bytes) (inno 3 0 0 32) [] old_storage))
       = {ChunkCompressed, VersionInfoValid, VersionInfoNotValid, BZipped}
   \<and> chunk_compression (fst (data_entry_load (mkstream flagged_bytes) (inno 3 0 0 32) [] old_storage))
       = BZip2
   \<and> options (fst (data_entry_load (mkstream sample_bytes) (inno 5 5 0 32) [] old_storage))
       = {VersionInfoValid, ChunkEncrypted}
   \<and> chunk_compression (fst (data_entry_load (mkstream sample_bytes) (inno 5 5 0 32) [] old_storage))
       = Stored
   \<and> chunk_encrypted (fst (data_entry_load (mkstream sample_bytes) (inno 5 5 0 32) [] old_storage))"
proof -
  have v: "version_less (inno 3 0 0 32) (INNO_VERSION 4 2 5)"
    by (simp add: version_defs)
  have o1: "options (fst (data_entry_load (mkstream sample_bytes) (inno 3 0 0 32) [] old_storage))
       = {ChunkCompressed, VersionInfoValid}"
    by (simp add: sample_bytes_def reader_defs version_defs entry_defs Let_def)
  have o2: "options (fst (data_entry_load (mkstream flagged_bytes) (inno 3 0 0 32) [] old_storage))
       = {ChunkCompressed, VersionInfoValid, VersionInfoNotValid, BZipped}"
    by (simp add: flagged_bytes_def reader_defs version_defs entry_defs Let_def bit_0)
  have o3: "options (fst (data_entry_load (mkstream sample_bytes) (inno 5 5 0 32) [] old_storage))
       = {VersionInfoValid, ChunkEncrypted}"
    by (simp add: sample_bytes_def reader_defs version_defs entry_defs Let_def)
  from compression_from_options [of "inno 3 0 0 32" "mkstream sample_bytes" "[]" old_storage]
    compression_from_options [of "inno 3 0 0 32" "mkstream flagged_bytes" "[]" old_storage]
    compression_from_options [of "inno 5 5 0 32" "mkstream sample_bytes" "[]" old_storage]
    v o1 o2 o3
  show ?thesis by simp
qed

subsection \<open>The FILETIME timestamp\<close>

text \<open>
  Claim C2 as it is written fails: it says that every raw FILETIME below
  \<open>FiletimeOffset\<close> yields a negative epoch, and \<open>FiletimeOffset - 1\<close> the epoch \<open>-1\<close>.
  The division of the source truncates towards zero: for the raw value
  \<open>FiletimeOffset - 1\<close> the warning is logged and the epoch is 0.
\<close>

theorem filetime_epoch_counterexample:
  "bits (inno 5 0 0 32) \<noteq> 16
   \<and> fst (load_s64 (before_timestamp (mkstream filetime_bytes) (inno 5 0 0 32) old_storage))
       = FiletimeOffset - 1
   \<and> FiletimeOffset - 1 <s FiletimeOffset
   \<and> timestamp (fst (data_entry_load (mkstream filetime_bytes) (inno 5 0 0 32) [] old_storage)) = 0
   \<and> timestamp (fst (data_entry_load (mkstream filetime_bytes) (inno 5 0 0 32) [] old_storage)) \<noteq> - 1
   \<and> \<not> sint (timestamp (fst (data_entry_load (mkstream filetime_bytes) (inno 5 0 0 32) [] old_storage))) < 0
   \<and> snd (snd (data_entry_load (mkstream filetime_bytes) (inno 5 0 0 32) [] old_storage))
       = [UnexpectedFiletime (FiletimeOffset - 1)]"
  by (simp add: filetime_bytes_def reader_defs version_defs entry_defs Let_def word_sless_alt
      signed_divide_int_def signed_modulo_int_def)

lemma sdiv_neg:
  assumes "(x::int) < 0"
  shows "x sdiv 10000000 = - ((- x) div 10000000)"
  using assms by (simp add: signed_divide_int_def sgn_if)

lemma sdiv_neg_bounds:
  assumes "(x::int) < 0" "- (2 ^ 63) \<le> x"
  shows "x sdiv 10000000 \<le> 0" "- (2 ^ 63) \<le> x sdiv 10000000"
    "x sdiv 10000000 < 0 \<longleftrightarrow> x \<le> - 10000000"
proof -
  have e: "x sdiv 10000000 = - ((- x) div 10000000)" using assms(1) by (rule sdiv_neg)
  have "0 \<le> (- x) div 10000000" using assms(1) by simp
  then show "x sdiv 10000000 \<le> 0" by (simp add: e)
  have "(- x) div 10000000 \<le> - x" using zdiv_mono2 [of "- x" 1 10000000] assms(1) by simp
  then show "- (2 ^ 63) \<le> x sdiv 10000000" using assms(2) by (simp add: e)
  have "0 < (- x) div 10000000 \<longleftrightarrow> 10000000 \<le> - x"
    by (simp add: pos_imp_zdiv_pos_iff)
  then show "x sdiv 10000000 < 0 \<longleftrightarrow> x \<le> - 10000000" by (auto simp: e)
qed

lemma load_timestamp_filetime:
  "bits v \<noteq> 16 \<Longrightarrow>
   load_timestamp strm v lg =
     (let filetime = fst (load_s64 strm);
          filetime' = filetime - FiletimeOffset
      in ((word_of_int (sint filetime' sdiv 10000000),
           (word_of_int (sint filetime' smod 10000000) :: u32) * 100),
          snd (load_s64 strm),
          if filetime <s FiletimeOffset then lg @ [UnexpectedFiletime filetime] else lg))"
  by (simp add: load_timestamp_def Let_def split_beta)

lemma data_entry_load_timestamp:
  "timestamp (fst (data_entry_load strm v lg old))
     = fst (fst (load_timestamp (before_timestamp strm v old) v (snd (snd (load_slices strm v lg)))))"
  "file_version (fst (data_entry_load strm v lg old))
     = fst (load_file_version (fst (snd (load_timestamp (before_timestamp strm v old) v
               (snd (snd (load_slices strm v lg)))))))"
  by (simp_all add: data_entry_load_def before_timestamp_def before_checksum_def Let_def split_beta
        load_slices_stream)

text \<open>
  Claim C2, as amended. On a 32-bit version, a raw FILETIME below \<open>FiletimeOffset\<close> logs a
  warning and decoding goes on with the next field. Where the subtraction stays within
  the 64-bit range, the epoch is the difference divided by \<open>10^7\<close> and truncated towards
  zero, so it is never positive, and negative only from \<open>10^7\<close> ticks below the offset on.
  A raw value of \<open>FiletimeOffset - 1\<close> gives the epoch 0.
\<close>

theorem filetime_below_offset:
  assumes "bits v \<noteq> 16"
    and "fst (load_s64 (before_timestamp strm v old)) = raw"
    and "raw <s FiletimeOffset"
  shows "UnexpectedFiletime raw \<in> set (snd (snd (data_entry_load strm v lg old)))
    \<and> file_version (fst (data_entry_load strm v lg old))
        = fst (load_file_version (snd (load_s64 (before_timestamp strm v old))))
    \<and> (- (2 ^ 63) \<le> sint raw - sint FiletimeOffset \<longrightarrow>
         sint (timestamp (fst (data_entry_load strm v lg old)))
           = (sint raw - sint FiletimeOffset) sdiv 10000000
         \<and> sint (timestamp (fst (data_entry_load strm v lg old))) \<le> 0
         \<and> (sint (timestamp (fst (data_entry_load strm v lg old))) < 0
              \<longleftrightarrow> sint raw \<le> sint FiletimeOffset - 10000000))
    \<and> (raw = FiletimeOffset - 1 \<longrightarrow> timestamp (fst (data_entry_load strm v lg old)) = 0)"
proof -
  define x where "x = sint raw - sint FiletimeOffset"
  define e where "e = fst (data_entry_load strm v lg old)"
  from assms(3) have neg: "x < 0" by (simp add: x_def word_sless_alt)
  have tsw: "timestamp e = word_of_int (sint (raw - FiletimeOffset) sdiv 10000000)"
    unfolding e_def data_entry_load_timestamp
    using assms(1,2) by (simp add: load_timestamp_filetime Let_def)
  have w: "UnexpectedFiletime raw \<in> set (snd (snd (data_entry_load strm v lg old)))"
    unfolding data_entry_load_log using assms(1,2,3)
    by (simp add: load_timestamp_filetime Let_def)
  have fv: "file_version e
      = fst (load_file_version (snd (load_s64 (before_timestamp strm v old))))"
    unfolding e_def data_entry_load_timestamp
    using assms(1) by (simp add: load_timestamp_filetime Let_def)
  have one: "timestamp e = 0" if "raw = FiletimeOffset - 1"
  proof -
    from that have "raw - FiletimeOffset = - 1" by simp
    then show ?thesis by (simp add: tsw signed_divide_int_def)
  qed
  have epoch: "sint (timestamp e) = x sdiv 10000000 \<and> sint (timestamp e) \<le> 0
      \<and> (sint (timestamp e) < 0 \<longleftrightarrow> sint raw \<le> sint FiletimeOffset - 10000000)"
    if lo: "- (2 ^ 63) \<le> x"
  proof -
    have "sint (raw - FiletimeOffset) = signed_take_bit 63 x"
      by (simp add: sint_word_diff x_def)
    also have "\<dots> = x" using lo neg by (intro signed_take_bit_int_eq_self) simp_all
    finally have d: "sint (raw - FiletimeOffset) = x" .
    have b: "x sdiv 10000000 \<le> 0" "- (2 ^ 63) \<le> x sdiv 10000000"
      "x sdiv 10000000 < 0 \<longleftrightarrow> x \<le> - 10000000"
      using neg lo by (rule sdiv_neg_bounds)+
    have "sint (timestamp e) = signed_take_bit 63 (x sdiv 10000000)"
      by (simp add: tsw d sint_sbintrunc')
    also have "\<dots> = x sdiv 10000000" using b by (intro signed_take_bit_int_eq_self) simp_all
    finally have s: "sint (timestamp e) = x sdiv 10000000" .
    from b(3) have "x sdiv 10000000 < 0 \<longleftrightarrow> sint raw \<le> sint FiletimeOffset - 10000000"
      unfolding x_def by linarith
    with s b(1) show ?thesis by simp
  qed
  from epoch have ep: "- (2 ^ 63) \<le> sint raw - sint FiletimeOffset \<longrightarrow>
         sint (timestamp (fst (data_entry_load strm v lg old)))
           = (sint raw - sint FiletimeOffset) sdiv 10000000
         \<and> sint (timestamp (fst (data_entry_load strm v lg old))) \<le> 0
         \<and> (sint (timestamp (fst (data_entry_load strm v lg old))) < 0
              \<longleftrightarrow> sint raw \<le> sint FiletimeOffset - 10000000)"
    unfolding x_def e_def by blast
  from one have on: "raw = FiletimeOffset - 1 \<longrightarrow>
      timestamp (fst (data_entry_load strm v lg old)) = 0"
    unfolding e_def by blast
  show ?thesis
    by (intro conjI) (rule w, rule fv [unfolded e_def], rule ep, rule on)
qed

theorem filetime_below_offset_witness:
  "bits (inno 5 0 0 32) \<noteq> 16
   \<and> fst (load_s64 (before_timestamp (mkstream filetime_bytes) (inno 5 0 0 32) old_storage))
       = FiletimeOffset - 1
   \<and> FiletimeOffset - 1 <s FiletimeOffset
   \<and> - (2 ^ 63) \<le> sint (FiletimeOffset - 1) - sint FiletimeOffset
   \<and> UnexpectedFiletime (FiletimeOffset - 1)
       \<in> set (snd (snd (data_entry_load (mkstream filetime_bytes) (inno 5 0 0 32) []
                            old_storage)))
   \<and> sint (timestamp (fst (data_entry_load (mkstream filetime_bytes) (inno 5 0 0 32) []
                               old_storage))) = 0
   \<and> timestamp (fst (data_entry_load (mkstream filetime_bytes) (inno 5 0 0 32) []
                         old_storage)) = 0"
proof -
  have h1: "bits (inno 5 0 0 32) \<noteq> 16" by (simp add: inno_def)
  have h2: "fst (load_s64 (before_timestamp (mkstream filetime_bytes) (inno 5 0 0 32)
                   old_storage)) = FiletimeOffset - 1"
    by (simp add: filetime_bytes_def old_storage_def reader_defs version_defs entry_defs)
  have h3: "FiletimeOffset - 1 <s FiletimeOffset"
    by (simp add: FiletimeOffset_def word_sless_alt)
  have h4: "- (2 ^ 63) \<le> sint (FiletimeOffset - 1) - sint FiletimeOffset"
    by (simp add: FiletimeOffset_def)
  have "(sint (FiletimeOffset - 1) - sint FiletimeOffset) sdiv 10000000 = 0"
    by (simp add: FiletimeOffset_def signed_divide_int_def)
  with filetime_below_offset [OF h1 h2 h3, of "[]"] h1 h2 h3 h4 show ?thesis by simp
qed

section \<open>The PE resource locator\<close>

subsection \<open>Address translation\<close>

lemma to_file_offset_find:
  "to_file_offset sections a =
     (case find (\<lambda>s. covers s a) sections of
        None \<Rightarrow> 0
      | Some s \<Rightarrow> a + raw_address s - virtual_address s)"
  by (induction sections) (simp_all add: covers_def)

lemma to_file_offset_translate:
  "to_file_offset sections a = (case translate sections a of None \<Rightarrow> 0 | Some x \<Rightarrow> x)"
  by (simp add: to_file_offset_find translate_def split: option.splits)

lemma covers_nat:
  "unat (virtual_address s) + unat (virtual_size s) < 2 ^ 32 \<Longrightarrow>
   covers s a \<longleftrightarrow> unat (virtual_address s) \<le> unat a \<and> unat a < unat (virtual_address s) + unat (virtual_size s)"
  by (simp add: covers_def word_le_nat_alt word_less_nat_alt unat_word_ariths)

text \<open>
  Claim C5 as it is written fails: it states the covering test and the offset on numbers,
  for every section list. The section fields are \<open>uint32_t\<close> and so are the sum
  \<open>virtual_address + virtual_size\<close> and the offset. A section at \<open>0xFFFFF000\<close> of size
  \<open>0x2000\<close> contains the address \<open>0xFFFFF800\<close> on numbers, and \<open>to_file_offset\<close>
  returns 0 for it; for a raw address of \<open>0xFFFFFFF0\<close> the offset of a covered address
  is not \<open>A + raw_address - virtual_address\<close> but that number modulo \<open>2^32\<close>.
\<close>

theorem to_file_offset_wrap_counterexample:
  "unat (0xFFFFF000 :: u32) \<le> unat (0xFFFFF800 :: u32)
   \<and> unat (0xFFFFF800 :: u32) < unat (0xFFFFF000 :: u32) + unat (0x2000 :: u32)
   \<and> unat (0xFFFFF800 :: u32) + unat (0x10 :: u32) - unat (0xFFFFF000 :: u32) = 0x810
   \<and> to_file_offset [\<lparr>virtual_size = 0x2000, virtual_address = 0xFFFFF000,
                        raw_address = 0x10\<rparr>] 0xFFFFF800 = 0
   \<and> unat (0x1000 :: u32) \<le> unat (0x1010 :: u32)
   \<and> unat (0x1010 :: u32) < unat (0x1000 :: u32) + unat (0x1000 :: u32)
   \<and> unat (0x1010 :: u32) + unat (0xFFFFFFF0 :: u32) - unat (0x1000 :: u32) = 0x100000000
   \<and> to_file_offset [\<lparr>virtual_size = 0x1000, virtual_address = 0x1000,
                        raw_address = 0xFFFFFFF0\<rparr>] 0x1010 = 0"
  by simp

lemma covers_numbers:
  "covers s a \<longleftrightarrow>
     unat (virtual_address s) \<le> unat a
     \<and> unat a < (unat (virtual_address s) + unat (virtual_size s)) mod 2 ^ 32"
  by (simp add: covers_def word_le_nat_alt word_less_nat_alt unat_word_ariths)

lemma offset_numbers:
  fixes a va raw :: u32
  assumes "va \<le> a"
  shows "unat (a + raw - va) = (unat a + unat raw - unat va) mod 2 ^ 32"
proof -
  have le: "unat va \<le> unat a + unat raw" using assms by (simp add: word_le_nat_alt)
  have "a + raw - va = of_nat (unat a) + of_nat (unat raw) - of_nat (unat va)" by simp
  also have "\<dots> = of_nat (unat a + unat raw - unat va)" using le by simp
  finally show ?thesis by (simp add: unat_of_nat)
qed

lemma to_file_offset_numbers:
  "unat (to_file_offset sections a) =
     (case find (\<lambda>s. unat (virtual_address s) \<le> unat a
                     \<and> unat a < (unat (virtual_address s) + unat (virtual_size s)) mod 2 ^ 32)
             sections of
        None \<Rightarrow> 0
      | Some s \<Rightarrow> (unat a + unat (raw_address s) - unat (virtual_address s)) mod 2 ^ 32)"
proof -
  have e: "find (\<lambda>s. unat (virtual_address s) \<le> unat a
                \<and> unat a < (unat (virtual_address s) + unat (virtual_size s)) mod 2 ^ 32)
             sections
           = find (\<lambda>s. covers s a) sections"
    by (simp add: covers_numbers)
  show ?thesis
  proof (cases "find (\<lambda>s. covers s a) sections")
    case None
    thus ?thesis by (simp only: e to_file_offset_find) simp
  next
    case (Some s)
    hence "covers s a" by (auto simp: find_Some_iff)
    hence "virtual_address s \<le> a" by (simp add: covers_def)
    from offset_numbers [OF this, of "raw_address s"] Some
    show ?thesis by (simp only: e to_file_offset_find) simp
  qed
qed

text \<open>
  Claim C5, as amended. For every section list and every address \<open>A\<close>, \<open>to_file_offset\<close>
  returns \<open>(A + raw_address - virtual_address) mod 2^32\<close> for the first section with
  \<open>virtual_address \<le> A < (virtual_address + virtual_size) mod 2^32\<close>, and 0 if there is
  no such section. For every section that ends within the 32-bit address space the test
  is \<open>virtual_address \<le> A < virtual_address + virtual_size\<close> on unbounded numbers.
\<close>

theorem to_file_offset_first_cover:
  "to_file_offset sections a =
     (case find (\<lambda>s. virtual_address s \<le> a \<and> a < virtual_address s + virtual_size s)
             sections of
        None \<Rightarrow> 0
      | Some s \<Rightarrow> a + raw_address s - virtual_address s)
   \<and> unat (to_file_offset sections a) =
     (case find (\<lambda>s. unat (virtual_address s) \<le> unat a
                     \<and> unat a < (unat (virtual_address s) + unat (virtual_size s)) mod 2 ^ 32)
             sections of
        None \<Rightarrow> 0
      | Some s \<Rightarrow> (unat a + unat (raw_address s) - unat (virtual_address s)) mod 2 ^ 32)
   \<and> (unat (virtual_address (s :: coff_section)) + unat (virtual_size s) < 2 ^ 32 \<longrightarrow>
        (virtual_address s \<le> a \<and> a < virtual_address s + virtual_size s
         \<longleftrightarrow> unat (virtual_address s) \<le> unat a
             \<and> unat a < unat (virtual_address s) + unat (virtual_size s)))"
  using to_file_offset_find [of sections a] covers_nat [of s a]
    to_file_offset_numbers [of sections a]
  by (simp add: covers_def [abs_def])

theorem to_file_offset_first_cover_witness:
  "to_file_offset sample_sections 0x1060 = 488
   \<and> to_file_offset sample_sections 0x5000 = 0
   \<and> to_file_offset (\<lparr>virtual_size = 0x2000, virtual_address = 0x1000, raw_address = 0x400\<rparr>
                       # sample_sections) 0x2010 = 0x1410
   \<and> unat (virtual_address (sample_sections ! 0)) + unat (virtual_size (sample_sections ! 0))
       < 2 ^ 32
   \<and> virtual_address (sample_sections ! 0) \<le> 0x1060
   \<and> 0x1060 < virtual_address (sample_sections ! 0) + virtual_size (sample_sections ! 0)
   \<and> to_file_offset [\<lparr>virtual_size = 0x2000, virtual_address = 0xFFFFF000,
                        raw_address = 0x10\<rparr>] 0x800 = 0
   \<and> unat (to_file_offset [\<lparr>virtual_size = 0x1000, virtual_address = 0x1000,
                        raw_address = 0xFFFFFFF8\<rparr>] 0x1010) = 8"
  using to_file_offset_first_cover [of sample_sections "0x1060" "sample_sections ! 0"]
    to_file_offset_first_cover [of sample_sections "0x5000" "sample_sections ! 0"]
    to_file_offset_first_cover [of "\<lparr>virtual_size = 0x2000, virtual_address = 0x1000,
        raw_address = 0x400\<rparr> # sample_sections" "0x2010" "sample_sections ! 0"]
    to_file_offset_first_cover [of "[\<lparr>virtual_size = 0x2000, virtual_address = 0xFFFFF000,
        raw_address = 0x10\<rparr>]" "0x800" "sample_sections ! 0"]
    to_file_offset_first_cover [of "[\<lparr>virtual_size = 0x1000, virtual_address = 0x1000,
        raw_address = 0xFFFFFFF8\<rparr>]" "0x1010" "sample_sections ! 0"]
  by (simp add: sample_sections_def)

subsection \<open>The header and the directories\<close>

lemma failbit_seekg [simp]: "failbit (seekg p s) = failbit s"
  by (simp add: seekg_def)

lemma failbit_seekg_cur [simp]: "failbit (seekg_cur d s) = failbit s"
  by (simp add: seekg_cur_def)

lemma failbit_read_bytes: "failbit s \<Longrightarrow> failbit (snd (read_bytes n s))"
  by (simp add: read_bytes_def)

lemma read_bytes_failed: "failbit (snd (read_bytes n s)) \<Longrightarrow> fst (read_bytes n s) = replicate n 0"
  by (auto simp: read_bytes_def split: if_splits)

lemma le_nat_zeros: "le_nat (replicate n 0) = 0"
  by (induction n) (simp_all add: le_nat_def)

lemma load_failed:
  "failbit s \<Longrightarrow> failbit (snd (load_u16 s))"
  "failbit s \<Longrightarrow> failbit (snd (load_u32 s))"
  by (simp_all add: load_u16_def load_u32_def split_beta failbit_read_bytes)

lemma load_zero:
  "failbit (snd (load_u16 s)) \<Longrightarrow> fst (load_u16 s) = 0"
  "failbit (snd (load_u32 s)) \<Longrightarrow> fst (load_u32 s) = 0"
  by (simp_all add: load_u16_def load_u32_def split_beta read_bytes_failed le_nat_zeros)

lemma load_header_fields:
  "load_header (seekg 0 strm) =
     (let f = read_pe_fields strm in
      if header_ok f
      then (Some \<lparr>nsections = pe_nsections f, section_table_offset = pe_section_table f,
                   resource_table_address = pe_resource_rva f\<rparr>, pe_stream f)
      else (None, snd (load_header (seekg 0 strm))))"
proof -
  define t1 where "t1 = snd (load_u16 (seekg 0x3c (seekg 0 strm)))"
  define po where "po = fst (load_u16 (seekg 0x3c (seekg 0 strm)))"
  define t2 where "t2 = snd (read_bytes 4 (seekg (unat po) t1))"
  define magic where "magic = fst (read_bytes 4 (seekg (unat po) t1))"
  define t3 where "t3 = snd (load_u16 (seekg_cur 2 t2))"
  define t4 where "t4 = snd (load_u16 (seekg_cur 12 t3))"
  define t5 where "t5 = snd (load_u16 (seekg_cur 2 t4))"
  define om where "om = fst (load_u16 (seekg_cur 2 t4))"
  define t6 where "t6 = snd (load_u32 (seekg_cur (if om = 0x20b then 106 else 90) t5))"
  define nd where "nd = fst (load_u32 (seekg_cur (if om = 0x20b then 106 else 90) t5))"
  define t7 where "t7 = snd (load_u32 (seekg_cur 16 t6))"
  define rva where "rva = fst (load_u32 (seekg_cur 16 t6))"
  define t8 where "t8 = snd (load_u32 t7)"
  define rs where "rs = fst (load_u32 t7)"
  note defs = t1_def po_def t2_def magic_def t3_def t4_def t5_def om_def t6_def nd_def
    t7_def rva_def t8_def rs_def
  have f12: "failbit t1 \<Longrightarrow> failbit t2" by (simp add: t2_def failbit_read_bytes)
  have f23: "failbit t2 \<Longrightarrow> failbit t3" by (simp add: t3_def load_failed)
  have f34: "failbit t3 \<Longrightarrow> failbit t4" by (simp add: t4_def load_failed)
  have f45: "failbit t4 \<Longrightarrow> failbit t5" by (simp add: t5_def load_failed)
  have f56: "failbit t5 \<Longrightarrow> failbit t6" by (simp add: t6_def load_failed)
  have z6: "failbit t6 \<Longrightarrow> nd = 0" unfolding t6_def nd_def by (rule load_zero)
  have z8: "failbit t8 \<Longrightarrow> rs = 0" unfolding t8_def rs_def by (rule load_zero)
  have f: "read_pe_fields strm =
     \<lparr>pe_magic = magic, pe_nsections = fst (load_u16 (seekg_cur 2 t2)),
      pe_section_table = word_of_int (tellg (seekg_cur 2 t4)) + ucast (fst (load_u16 (seekg_cur 12 t3))),
      pe_ndirectories = nd, pe_resource_rva = rva, pe_resource_size = rs, pe_stream = t8\<rparr>"
    by (simp add: read_pe_fields_def split_beta defs)
  have h: "load_header (seekg 0 strm) =
     (if failbit t1 then (None, t1) else
      if failbit t2 then (None, t2) else
      if magic \<noteq> PE_MAGIC then (None, t2) else
      if failbit t5 then (None, t5) else
      if failbit t6 \<or> nd < 3 then (None, t6) else
      if failbit t8 \<or> rva = 0 \<or> rs = 0 then (None, t8) else
      (Some \<lparr>nsections = fst (load_u16 (seekg_cur 2 t2)),
              section_table_offset = word_of_int (tellg (seekg_cur 2 t4))
                 + ucast (fst (load_u16 (seekg_cur 12 t3))),
              resource_table_address = rva\<rparr>, t8))"
    by (simp add: load_header_def split_beta Let_def defs)
  have c1: "failbit t1 \<Longrightarrow> \<not> header_ok (read_pe_fields strm)"
    using f12 f23 f34 f45 f56 z6 by (auto simp: f header_ok_def)
  have c2: "failbit t2 \<Longrightarrow> \<not> header_ok (read_pe_fields strm)"
    using f23 f34 f45 f56 z6 by (auto simp: f header_ok_def)
  have c5: "failbit t5 \<Longrightarrow> \<not> header_ok (read_pe_fields strm)"
    using f56 z6 by (auto simp: f header_ok_def)
  have c6: "failbit t6 \<Longrightarrow> \<not> header_ok (read_pe_fields strm)"
    using z6 by (auto simp: f header_ok_def)
  have c8: "failbit t8 \<Longrightarrow> \<not> header_ok (read_pe_fields strm)"
    using z8 by (auto simp: f header_ok_def)
  have ok: "header_ok (read_pe_fields strm) \<longleftrightarrow>
      magic = PE_MAGIC \<and> \<not> nd < 3 \<and> rva \<noteq> 0 \<and> rs \<noteq> 0"
    by (simp add: f header_ok_def not_less)
  show ?thesis
  proof (cases "header_ok (read_pe_fields strm)")
    case True
    with c1 c2 c5 c6 c8 have nf: "\<not> failbit t1" "\<not> failbit t2" "\<not> failbit t5" "\<not> failbit t6" "\<not> failbit t8"
      by blast+
    from True have "magic = PE_MAGIC" "\<not> nd < 3" "rva \<noteq> 0" "rs \<noteq> 0" by (simp_all add: ok)
    with nf True show ?thesis by (simp add: h Let_def) (simp add: f)
  next
    case False
    then have "fst (load_header (seekg 0 strm)) = None"
      unfolding h ok by (auto split: if_splits)
    with False show ?thesis by (simp add: Let_def prod_eq_iff)
  qed
qed

lemma bit_top: "bit (push_bit 31 1 :: u32) n \<longleftrightarrow> n = 31"
proof -
  have "(push_bit 31 1 :: u32) = 2 ^ 31" by (rule push_bit_of_1)
  then show ?thesis by (simp only: bit_exp_iff) auto
qed

lemma and_top: "(e :: u32) AND push_bit 31 1 = (if bit e 31 then push_bit 31 1 else 0)"
  by (rule bit_word_eqI) (auto simp only: bit_and_iff bit_top bit_0_eq split: if_splits)

lemma top_nonzero: "(push_bit 31 1 :: u32) \<noteq> 0"
  by simp

lemma and_not_top: "(e :: u32) AND NOT (push_bit 31 1) = take_bit 31 e"
proof (rule bit_word_eqI)
  fix n assume "n < LENGTH(32)"
  then have "n < 31 \<longleftrightarrow> n \<noteq> 31" by auto
  then show "bit (e AND NOT (push_bit 31 1)) n \<longleftrightarrow> bit (take_bit 31 e) n"
    using \<open>n < LENGTH(32)\<close>
    by (simp only: bit_and_iff bit_not_iff bit_top bit_take_bit_iff) auto
qed

lemma get_resource_table_bits:
  "get_resource_table e r = (bit e 31, take_bit 31 e + r)"
  unfolding get_resource_table_def Let_def and_not_top and_top
  using top_nonzero by (simp only: if_distrib [of "\<lambda>x. x \<noteq> 0"] simp_thms if_bool_eq_conj)

lemma load_u32_advance:
  "\<not> failbit (snd (load_u32 s)) \<Longrightarrow> snd (load_u32 s) = seekg_cur 4 s"
  by (auto simp: load_u32_def read_bytes_def seekg_cur_def split_beta split: if_splits)

lemma scan_ids_absent:
  "needle \<notin> set (read_ids n s) \<Longrightarrow> fst (scan_ids n needle s) = 0"
proof (induction n arbitrary: s)
  case 0
  then show ?case by simp
next
  case (Suc n)
  define i where "i = fst (load_u32 s)"
  define r1 where "r1 = snd (load_u32 s)"
  define r2 where "r2 = snd (load_u32 r1)"
  from Suc.prems have ne: "i \<noteq> needle" and rest: "needle \<notin> set (read_ids n (seekg_cur 4 r1))"
    by (auto simp: i_def r1_def split_beta)
  show ?case
  proof (cases "failbit r2")
    case True
    then show ?thesis by (simp add: split_beta r1_def r2_def)
  next
    case False
    then have "r2 = seekg_cur 4 r1" unfolding r2_def by (rule load_u32_advance)
    with rest have "fst (scan_ids n needle r2) = 0" by (simp add: Suc.IH)
    with False ne show ?thesis by (simp add: split_beta r1_def r2_def i_def)
  qed
qed

lemma find_resource_entry_absent:
  "needle \<notin> set (directory_ids s) \<Longrightarrow> fst (find_resource_entry s needle) = 0"
  by (simp add: find_resource_entry_def directory_ids_def split_beta Let_def scan_ids_absent)

lemma not_bit_zero: "\<not> bit (0 :: u32) 31"
  by simp

lemma take_bit_leaf: "\<not> bit (e :: u32) 31 \<Longrightarrow> take_bit 31 e = e"
proof (rule bit_word_eqI)
  fix n assume a: "\<not> bit e 31" "n < LENGTH(32)"
  show "bit (take_bit 31 e) n \<longleftrightarrow> bit e n"
  proof (cases "n = 31")
    case True
    with a show ?thesis by (simp add: bit_take_bit_iff)
  next
    case False
    with a have "n < 31" by simp
    then show ?thesis by (simp add: bit_take_bit_iff)
  qed
qed

lemma load_header_fst:
  "fst (load_header (seekg 0 strm)) =
     (if header_ok (read_pe_fields strm)
      then Some \<lparr>nsections = pe_nsections (read_pe_fields strm),
                  section_table_offset = pe_section_table (read_pe_fields strm),
                  resource_table_address = pe_resource_rva (read_pe_fields strm)\<rparr>
      else None)"
  by (subst load_header_fields) (simp add: Let_def)

lemma load_header_snd:
  "header_ok (read_pe_fields strm) \<Longrightarrow>
   snd (load_header (seekg 0 strm)) = pe_stream (read_pe_fields strm)"
  by (subst load_header_fields) (simp add: Let_def)

lemma find_resource_log: "snd (snd (find_resource lg strm name type language)) = lg"
  by (simp add: find_resource_def Let_def split_beta split: option.splits)

lemma find_resource_locate:
  "fst (find_resource lg strm name type language) = resource_of (locate strm name type language)"
proof (cases "header_ok (read_pe_fields strm)")
  case False
  then have "fst (load_header (seekg 0 strm)) = None" by (simp add: load_header_fst)
  then have l: "fst (find_resource lg strm name type language) = \<lparr>offset = 0, size_res = 0\<rparr>"
    by (simp add: find_resource_def Let_def split_beta)
  from False have "locate strm name type language \<in> {NotPE, FewDirectories, NoResourceTable}"
    by (auto simp: locate_def header_ok_def Let_def not_le)
  then show ?thesis using l by (auto simp: resource_of_def)
next
  case True
  define f where "f = read_pe_fields strm"
  define secs where "secs = fst (load_sections (unat (pe_nsections f))
             (seekg (unat (pe_section_table f)) (pe_stream f)))"
  define t1 where "t1 = snd (load_sections (unat (pe_nsections f))
             (seekg (unat (pe_section_table f)) (pe_stream f)))"
  from True have ok: "pe_magic f = PE_MAGIC" "\<not> pe_ndirectories f < 3"
    "pe_resource_rva f \<noteq> 0" "pe_resource_size f \<noteq> 0"
    by (simp_all add: header_ok_def f_def not_less)
  have hd: "load_header (seekg 0 strm) =
     (Some \<lparr>nsections = pe_nsections f, section_table_offset = pe_section_table f,
             resource_table_address = pe_resource_rva f\<rparr>, pe_stream f)"
    using True by (simp add: prod_eq_iff load_header_fst load_header_snd f_def)
  show ?thesis
  proof (cases "failbit t1")
    case True
    then show ?thesis
      using ok
      by (simp add: find_resource_def locate_def hd load_section_list_def Let_def split_beta
          f_def [symmetric] t1_def [symmetric] resource_of_def)
  next
    case nf: False
    show ?thesis
    proof (cases "translate secs (pe_resource_rva f)")
      case None
      then show ?thesis
        using ok nf
        by (simp add: find_resource_def locate_def hd load_section_list_def Let_def split_beta
            f_def [symmetric] t1_def [symmetric] secs_def [symmetric] resource_of_def
            to_file_offset_translate)
    next
      case (Some root)
      show ?thesis
        using ok nf Some
        by (simp add: find_resource_def locate_def hd load_section_list_def Let_def split_beta
            f_def [symmetric] t1_def [symmetric] secs_def [symmetric] resource_of_def
            to_file_offset_translate get_resource_table_bits find_resource_entry_absent
            take_bit_leaf split: option.splits)
    qed
  qed
qed

lemma sample_found:
  "fst (find_resource [] (mkstream sample_image) 11111 10 0) = \<lparr>offset = 488, size_res = 4\<rparr>"
  by (simp add: sample_image_def reader_defs exe_defs load_sections_numeral scan_ids_numeral)

lemma locate_not_pe: "locate (mkstream (patch 64 [0x51] sample_image)) 11111 10 0 = NotPE"
  by (simp add: locate_defs reader_defs)

lemma locate_few_directories:
  "locate (mkstream (patch 180 [2] sample_image)) 11111 10 0 = FewDirectories"
  by (simp add: locate_defs reader_defs)

lemma locate_no_resource_table:
  "locate (mkstream (patch 200 [0, 0] sample_image)) 11111 10 0 = NoResourceTable"
  by (simp add: locate_defs reader_defs)

lemma locate_no_section:
  "locate (mkstream (patch 200 [0, 0x50] sample_image)) 11111 10 0 = NoSection"
  by (simp add: locate_defs reader_defs)

lemma locate_missing_type: "locate (mkstream sample_image) 11111 3 0 = MissingLevel 1"
  by (simp add: locate_defs reader_defs)

lemma locate_missing_name: "locate (mkstream sample_image) 5 10 0 = MissingLevel 2"
  by (simp add: locate_defs reader_defs)

lemma locate_missing_language: "locate (mkstream sample_image) 11111 10 0x409 = MissingLevel 3"
  by (simp add: locate_defs reader_defs)

lemma locate_subdirectory:
  "locate (mkstream (patch 463 [0x80] sample_image)) 11111 10 0 = SubdirectoryAtLeaf"
  by (simp add: locate_defs reader_defs)

lemma locate_found: "locate (mkstream sample_image) 11111 10 0 = Found 488 4"
  by (simp add: locate_defs reader_defs)

lemma locate_zero_root:
  "locate (mkstream (patch 200 [0, 0x20] sample_image)) 11111 10 0 = TableAtOffsetZero"
  by (simp add: locate_defs reader_defs)

lemma locate_zero_data:
  "locate (mkstream (patch 464 [0, 0x20] sample_image)) 11111 10 0 = DataAtOffsetZero"
  by (simp add: locate_defs reader_defs)

lemma sample_sections_loaded:
  "fst (load_sections 2 (seekg 312 (mkstream sample_image))) = sample_sections"
  by (simp add: sample_sections_def sample_image_def reader_defs load_sections_numeral)

lemma locate_short_read: "locate (mkstream (take 470 sample_image)) 11111 10 0 = ShortRead"
  by (simp add: locate_defs reader_defs)

lemma locate_leaf_type:
  "locate (mkstream (patch 415 [0] sample_image)) 11111 10 0 = NotADirectory 1"
  by (simp add: locate_defs reader_defs)

lemma locate_leaf_name:
  "locate (mkstream (patch 439 [0] sample_image)) 11111 10 0 = NotADirectory 2"
  by (simp add: locate_defs reader_defs)

lemma locate_null_entry:
  "locate (mkstream (patch 460 [0] sample_image)) 11111 10 0 = NullEntry"
  by (simp add: locate_defs reader_defs)

lemma leaf_type_image:
  "pe_magic (read_pe_fields (mkstream (patch 415 [0] sample_image))) = PE_MAGIC
   \<and> pe_ndirectories (read_pe_fields (mkstream (patch 415 [0] sample_image))) = 16
   \<and> pe_resource_rva (read_pe_fields (mkstream (patch 415 [0] sample_image))) = 0x1000
   \<and> pe_resource_size (read_pe_fields (mkstream (patch 415 [0] sample_image))) = 0x64
   \<and> 10 \<in> set (directory_ids (seekg 392 (mkstream (patch 415 [0] sample_image))))
   \<and> fst (find_resource_entry (seekg 392 (mkstream (patch 415 [0] sample_image))) 10) = 0x18"
  by (simp add: locate_defs reader_defs)

text \<open>
  Claim C4 as it is written fails: it says that \<open>{offset: 0, size: 0}\<close> is returned
  exactly in the listed cases. \<open>find_resource\<close> has other exits with the same result. In
  the first image below the header is valid, the resource table is present and mapped by
  a section, and the type id 10 is found in the root directory, but its entry has the
  high bit clear (a leaf where a sub-directory is expected). The second image ends in
  the middle of the data entry, so the stream fails. Both return \<open>{0, 0}\<close>, and neither is
  one of the listed cases.
\<close>

theorem find_resource_other_exits_counterexample:
  "locate (mkstream (patch 415 [0] sample_image)) 11111 10 0 = NotADirectory 1
   \<and> NotADirectory 1 \<notin> {NotPE, FewDirectories, NoResourceTable, NoSection,
        MissingLevel 1, MissingLevel 2, MissingLevel 3, SubdirectoryAtLeaf}
   \<and> pe_magic (read_pe_fields (mkstream (patch 415 [0] sample_image))) = PE_MAGIC
   \<and> pe_ndirectories (read_pe_fields (mkstream (patch 415 [0] sample_image))) = 16
   \<and> pe_resource_rva (read_pe_fields (mkstream (patch 415 [0] sample_image))) = 0x1000
   \<and> pe_resource_size (read_pe_fields (mkstream (patch 415 [0] sample_image))) = 0x64
   \<and> to_file_offset sample_sections 0x1000 = 392
   \<and> 10 \<in> set (directory_ids (seekg 392 (mkstream (patch 415 [0] sample_image))))
   \<and> fst (find_resource_entry (seekg 392 (mkstream (patch 415 [0] sample_image))) 10) = 0x18
   \<and> fst (find_resource [] (mkstream (patch 415 [0] sample_image)) 11111 10 0)
       = \<lparr>offset = 0, size_res = 0\<rparr>
   \<and> locate (mkstream (take 470 sample_image)) 11111 10 0 = ShortRead
   \<and> fst (find_resource [] (mkstream (take 470 sample_image)) 11111 10 0)
       = \<lparr>offset = 0, size_res = 0\<rparr>"
  using leaf_type_image
  by (simp add: find_resource_locate locate_leaf_type locate_short_read resource_of_def
      sample_sections_def)

lemma locate_range:
  "locate strm name type language
     \<in> {NotPE, FewDirectories, NoResourceTable, NoSection,
        MissingLevel 1, MissingLevel 2, MissingLevel 3, SubdirectoryAtLeaf,
        ShortRead, NotADirectory 1, NotADirectory 2, NullEntry,
        TableAtOffsetZero, DataAtOffsetZero}
   \<or> (\<exists>off sz. locate strm name type language = Found off sz \<and> off \<noteq> 0)"
  by (simp add: locate_def Let_def split_beta split: option.splits)

lemma ucast_nonzero: "off \<noteq> 0 \<Longrightarrow> (ucast (off :: u32) :: u64) \<noteq> 0"
proof
  assume n: "off \<noteq> 0" and z: "(ucast off :: u64) = 0"
  have "unat off < 2 ^ 32" using unsigned_less [of off] by simp
  hence "unat off < 2 ^ 64" by simp
  hence "unat (ucast off :: u64) = unat off"
    by (simp add: unsigned_ucast_eq take_bit_nat_eq_self_iff)
  with z have "unat off = 0" by simp
  with n show False by (simp add: unsigned_eq_0_iff)
qed

lemma resource_of_found:
  "off \<noteq> 0 \<Longrightarrow> resource_of (Found off sz) \<noteq> \<lparr>offset = 0, size_res = 0\<rparr>"
  using ucast_nonzero [of off] by (simp add: resource_of_def)

text \<open>
  Claim C4, as amended. \<open>find_resource\<close> returns \<open>{offset: 0, size: 0}\<close> exactly when the
  walk ends in one of these cases: missing PE magic, a directory count below 3, a zero
  resource-table RVA or size, no section covering an RVA being translated, a lookup level
  whose id is absent, a language entry whose high bit marks a sub-directory, a short
  read, a type or name entry that is a leaf, a null language entry, or an RVA that a
  section maps to file offset 0. Nothing is logged, whatever the result.
\<close>

theorem find_resource_zero_exactly:
  "(fst (find_resource lg strm name type language) = \<lparr>offset = 0, size_res = 0\<rparr>
      \<longleftrightarrow> locate strm name type language
            \<in> {NotPE, FewDirectories, NoResourceTable, NoSection,
               MissingLevel 1, MissingLevel 2, MissingLevel 3, SubdirectoryAtLeaf,
               ShortRead, NotADirectory 1, NotADirectory 2, NullEntry,
               TableAtOffsetZero, DataAtOffsetZero})
   \<and> snd (snd (find_resource lg strm name type language)) = lg"
proof -
  have "fst (find_resource lg strm name type language) = \<lparr>offset = 0, size_res = 0\<rparr>"
    if "locate strm name type language
            \<in> {NotPE, FewDirectories, NoResourceTable, NoSection,
               MissingLevel 1, MissingLevel 2, MissingLevel 3, SubdirectoryAtLeaf,
               ShortRead, NotADirectory 1, NotADirectory 2, NullEntry,
               TableAtOffsetZero, DataAtOffsetZero}"
    using that by (auto simp: find_resource_locate resource_of_def)
  moreover have "locate strm name type language
            \<in> {NotPE, FewDirectories, NoResourceTable, NoSection,
               MissingLevel 1, MissingLevel 2, MissingLevel 3, SubdirectoryAtLeaf,
               ShortRead, NotADirectory 1, NotADirectory 2, NullEntry,
               TableAtOffsetZero, DataAtOffsetZero}"
    if z: "fst (find_resource lg strm name type language) = \<lparr>offset = 0, size_res = 0\<rparr>"
  proof (rule ccontr)
    assume n: "\<not> ?thesis"
    with locate_range [of strm name type language]
    obtain off sz where "locate strm name type language = Found off sz" "off \<noteq> 0"
      by blast
    with z resource_of_found [of off sz] show False
      by (simp add: find_resource_locate)
  qed
  ultimately show ?thesis using find_resource_log [of lg strm name type language] by blast
qed

theorem find_resource_zero_exactly_witness:
  "locate (mkstream (patch 64 [0x51] sample_image)) 11111 10 0 = NotPE
   \<and> fst (find_resource [] (mkstream (patch 64 [0x51] sample_image)) 11111 10 0)
       = \<lparr>offset = 0, size_res = 0\<rparr>
   \<and> locate (mkstream (patch 180 [2] sample_image)) 11111 10 0 = FewDirectories
   \<and> fst (find_resource [] (mkstream (patch 180 [2] sample_image)) 11111 10 0)
       = \<lparr>offset = 0, size_res = 0\<rparr>
   \<and> locate (mkstream (patch 200 [0, 0] sample_image)) 11111 10 0 = NoResourceTable
   \<and> fst (find_resource [] (mkstream (patch 200 [0, 0] sample_image)) 11111 10 0)
       = \<lparr>offset = 0, size_res = 0\<rparr>
   \<and> locate (mkstream (patch 200 [0, 0x50] sample_image)) 11111 10 0 = NoSection
   \<and> fst (find_resource [] (mkstream (patch 200 [0, 0x50] sample_image)) 11111 10 0)
       = \<lparr>offset = 0, size_res = 0\<rparr>
   \<and> locate (mkstream sample_image) 11111 3 0 = MissingLevel 1
   \<and> fst (find_resource [] (mkstream sample_image) 11111 3 0) = \<lparr>offset = 0, size_res = 0\<rparr>
   \<and> locate (mkstream sample_image) 5 10 0 = MissingLevel 2
   \<and> fst (find_resource [] (mkstream sample_image) 5 10 0) = \<lparr>offset = 0, size_res = 0\<rparr>
   \<and> locate (mkstream sample_image) 11111 10 0x409 = MissingLevel 3
   \<and> fst (find_resource [] (mkstream sample_image) 11111 10 0x409)
       = \<lparr>offset = 0, size_res = 0\<rparr>
   \<and> locate (mkstream (patch 463 [0x80] sample_image)) 11111 10 0 = SubdirectoryAtLeaf
   \<and> fst (find_resource [] (mkstream (patch 463 [0x80] sample_image)) 11111 10 0)
       = \<lparr>offset = 0, size_res = 0\<rparr>
   \<and> snd (snd (find_resource [] (mkstream (patch 463 [0x80] sample_image)) 11111 10 0)) = []
   \<and> locate (mkstream (patch 439 [0] sample_image)) 11111 10 0 = NotADirectory 2
   \<and> fst (find_resource [] (mkstream (patch 439 [0] sample_image)) 11111 10 0)
       = \<lparr>offset = 0, size_res = 0\<rparr>
   \<and> locate (mkstream (patch 460 [0] sample_image)) 11111 10 0 = NullEntry
   \<and> fst (find_resource [] (mkstream (patch 460 [0] sample_image)) 11111 10 0)
       = \<lparr>offset = 0, size_res = 0\<rparr>
   \<and> locate (mkstream sample_image) 11111 10 0 = Found 488 4
   \<and> fst (find_resource [] (mkstream sample_image) 11111 10 0)
       \<noteq> \<lparr>offset = 0, size_res = 0\<rparr>
   \<and> snd (snd (find_resource [] (mkstream sample_image) 11111 10 0)) = []"
  using
    find_resource_zero_exactly [of "[]" "mkstream (patch 64 [0x51] sample_image)" 11111 10 0]
    find_resource_zero_exactly [of "[]" "mkstream (patch 180 [2] sample_image)" 11111 10 0]
    find_resource_zero_exactly [of "[]" "mkstream (patch 200 [0, 0] sample_image)" 11111 10 0]
    find_resource_zero_exactly [of "[]" "mkstream (patch 200 [0, 0x50] sample_image)" 11111 10 0]
    find_resource_zero_exactly [of "[]" "mkstream sample_image" 11111 3 0]
    find_resource_zero_exactly [of "[]" "mkstream sample_image" 5 10 0]
    find_resource_zero_exactly [of "[]" "mkstream sample_image" 11111 10 "0x409"]
    find_resource_zero_exactly [of "[]" "mkstream (patch 463 [0x80] sample_image)" 11111 10 0]
    find_resource_zero_exactly [of "[]" "mkstream (patch 439 [0] sample_image)" 11111 10 0]
    find_resource_zero_exactly [of "[]" "mkstream (patch 460 [0] sample_image)" 11111 10 0]
    find_resource_zero_exactly [of "[]" "mkstream sample_image" 11111 10 0]
  by (simp only: locate_not_pe locate_few_directories locate_no_resource_table locate_no_section
      locate_missing_type locate_missing_name locate_missing_language locate_subdirectory
      locate_leaf_name locate_null_entry locate_found)
     simp

text \<open>
  Claim C10. \<open>to_file_offset\<close> returns 0 both when no section covers the address and when
  a section maps it to file offset 0. For every image whose resource table or whose
  resource data lies at an address that a section maps to file offset 0,
  \<open>find_resource\<close> returns \<open>{0, 0}\<close>, as if the resource did not exist.
\<close>

theorem zero_offset_reads_as_not_found:
  "locate strm name type language \<in> {TableAtOffsetZero, DataAtOffsetZero} \<Longrightarrow>
   fst (find_resource lg strm name type language) = \<lparr>offset = 0, size_res = 0\<rparr>
   \<and> (to_file_offset sections a = 0
        \<longleftrightarrow> translate sections a = None \<or> translate sections a = Some 0)"
  by (auto simp: find_resource_locate resource_of_def to_file_offset_translate
      split: option.splits)

theorem zero_offset_reads_as_not_found_witness:
  "locate (mkstream (patch 200 [0, 0x20] sample_image)) 11111 10 0 = TableAtOffsetZero
   \<and> fst (find_resource [] (mkstream (patch 200 [0, 0x20] sample_image)) 11111 10 0)
       = \<lparr>offset = 0, size_res = 0\<rparr>
   \<and> locate (mkstream (patch 464 [0, 0x20] sample_image)) 11111 10 0 = DataAtOffsetZero
   \<and> fst (find_resource [] (mkstream (patch 464 [0, 0x20] sample_image)) 11111 10 0)
       = \<lparr>offset = 0, size_res = 0\<rparr>
   \<and> covers (sample_sections ! 1) 0x2000
   \<and> translate sample_sections 0x2000 = Some 0
   \<and> to_file_offset sample_sections 0x2000 = 0"
proof -
  have c: "covers (sample_sections ! 1) 0x2000" "translate sample_sections 0x2000 = Some 0"
    by (simp_all add: sample_sections_def covers_def translate_def)
  from zero_offset_reads_as_not_found
         [of "mkstream (patch 200 [0, 0x20] sample_image)" 11111 10 0 "[]" sample_sections "0x2000"]
    zero_offset_reads_as_not_found
         [of "mkstream (patch 464 [0, 0x20] sample_image)" 11111 10 0 "[]" sample_sections "0x2000"]
    c
  show ?thesis
    by (simp only: locate_zero_root locate_zero_data) simp
qed

section \<open>The local time zone\<close>

lemma flip_signs_eq:
  "flip_signs i tz = take i tz @ map flip_sign (drop i tz)"
proof (induction i tz rule: flip_signs.induct)
  case (1 i timezone)
  show ?case
  proof (cases "i < length timezone")
    case True
    define tz' where "tz' = (if timezone ! i = CHR ''+'' then timezone[i := CHR ''-'']
           else if timezone ! i = CHR ''-'' then timezone[i := CHR ''+'']
           else timezone)"
    have tz': "tz' = timezone[i := flip_sign (timezone ! i)]"
      by (simp add: tz'_def flip_sign_def)
    have "flip_signs i timezone = flip_signs (i + 1) tz'"
      using True by (subst flip_signs.simps) (simp add: tz'_def)
    also have "\<dots> = take (i + 1) tz' @ map flip_sign (drop (i + 1) tz')"
      using "1.IH" [OF True] by (simp add: tz'_def)
    also have "\<dots> = take i timezone @ map flip_sign (drop i timezone)"
      using True by (simp add: tz' take_Suc_conv_app_nth Cons_nth_drop_Suc [symmetric])
    finally show ?thesis .
  next
    case False
    then show ?thesis by (subst flip_signs.simps) simp
  qed
qed

text \<open>
  Claim C8. For every input string, \<open>set_local_timezone\<close> replaces every \<open>+\<close> by \<open>-\<close> and
  every \<open>-\<close> by \<open>+\<close> and assigns the result, as a C string, to \<open>TZ\<close>: \<open>GMT+1\<close> is stored as
  \<open>GMT-1\<close>, which \<open>TZ\<close> reads as one hour east of UTC.
\<close>

theorem set_local_timezone_flips:
  "set_local_timezone timezone env =
     env(''TZ'' \<mapsto> c_str (map (\<lambda>c. if c = CHR ''+'' then CHR ''-''
                                  else if c = CHR ''-'' then CHR ''+'' else c) timezone))"
  using flip_signs_eq [of 0 timezone]
  by (simp add: set_local_timezone_def set_timezone_def flip_sign_def [abs_def])

theorem set_local_timezone_flips_witness:
  "set_local_timezone ''GMT+1'' Map.empty ''TZ'' = Some ''GMT-1''
   \<and> set_local_timezone ''UTC-5+x'' [''TZ'' \<mapsto> ''old''] ''TZ'' = Some ''UTC+5-x''"
  using set_local_timezone_flips [of "''GMT+1''" Map.empty]
    set_local_timezone_flips [of "''UTC-5+x''" "[''TZ'' \<mapsto> ''old'']"]
  by (simp add: c_str_def)

end
